theory Spec2Isabelle
  imports Main
begin

section \<open>Python text primitives\<close>

text \<open>
  Text is modelled as \<open>string\<close> (a list of 8-bit characters) and the embedding covers
  ASCII text: the characters that \<open>str.strip\<close>, \<open>str.split\<close> and the regular expression
  class \<open>\s\<close> treat as white space are the ASCII ones (code points 9 to 13 and 28 to 32),
  \<open>str.lower\<close> maps \<open>A\<close> to \<open>Z\<close> onto \<open>a\<close> to \<open>z\<close> and leaves every other character alone,
  and \<open>\d\<close> is \<open>0\<close> to \<open>9\<close>.
\<close>

definition isspace :: "char \<Rightarrow> bool" where
  "isspace c = (let n = (of_char c :: nat) in (9 \<le> n \<and> n \<le> 13) \<or> (28 \<le> n \<and> n \<le> 32))"

definition ascii_uppercase :: string where
  "ascii_uppercase = ''ABCDEFGHIJKLMNOPQRSTUVWXYZ''"

definition ascii_lowercase :: string where
  "ascii_lowercase = ''abcdefghijklmnopqrstuvwxyz''"

definition isdigit :: "char \<Rightarrow> bool" where
  "isdigit c = (c \<in> set ''0123456789'')"

definition isupper_char :: "char \<Rightarrow> bool" where
  "isupper_char c = (c \<in> set ascii_uppercase)"

definition islower_char :: "char \<Rightarrow> bool" where
  "islower_char c = (c \<in> set ascii_lowercase)"

definition isalpha :: "char \<Rightarrow> bool" where
  "isalpha c = (isupper_char c \<or> islower_char c)"

definition lower_char :: "char \<Rightarrow> char" where
  "lower_char c = (case map_of (zip ascii_uppercase ascii_lowercase) c of Some l \<Rightarrow> l | None \<Rightarrow> c)"

text \<open>\<open>s.lower()\<close>\<close>

definition lower :: "string \<Rightarrow> string" where
  "lower s = map lower_char s"

text \<open>\<open>s.strip()\<close>: white space removed at both ends.\<close>

definition lstrip :: "string \<Rightarrow> string" where
  "lstrip s = dropWhile isspace s"

definition rstrip :: "string \<Rightarrow> string" where
  "rstrip s = rev (dropWhile isspace (rev s))"

definition strip :: "string \<Rightarrow> string" where
  "strip s = rstrip (lstrip s)"

text \<open>\<open>s.startswith(p)\<close>\<close>

fun startswith :: "string \<Rightarrow> string \<Rightarrow> bool" where
  "startswith s [] = True"
| "startswith [] (p # ps) = False"
| "startswith (c # cs) (p # ps) = (c = p \<and> startswith cs ps)"

text \<open>\<open>sub in s\<close>: \<open>sub\<close> occurs in \<open>s\<close> as a contiguous run.\<close>

fun contains :: "string \<Rightarrow> string \<Rightarrow> bool" where
  "contains [] sub = (sub = [])"
| "contains (c # cs) sub = (startswith (c # cs) sub \<or> contains cs sub)"

text \<open>\<open>s.split('\n')[0]\<close>: the text before the first line feed.\<close>

definition first_line :: "string \<Rightarrow> string" where
  "first_line s = takeWhile (\<lambda>c. c \<noteq> CHR 0x0A) s"

text \<open>\<open>s.split(sep)\<close> for a one-character separator: the pieces between the separators,
  the empty ones included.\<close>

fun split_on :: "char \<Rightarrow> string \<Rightarrow> string list" where
  "split_on sep [] = [[]]"
| "split_on sep (c # cs) =
     (if c = sep then [] # split_on sep cs
      else (case split_on sep cs of [] \<Rightarrow> [[c]] | p # ps \<Rightarrow> (c # p) # ps))"

text \<open>\<open>s.split()\<close>: the maximal runs of characters that are not white space.\<close>

fun split_ws :: "string \<Rightarrow> string list" where
  "split_ws [] = []"
| "split_ws (c # cs) =
     (if isspace c then split_ws cs
      else (case cs of
              [] \<Rightarrow> [[c]]
            | d # ds \<Rightarrow> if isspace d then [c] # split_ws cs
                       else (case split_ws cs of [] \<Rightarrow> [[c]] | w # ws \<Rightarrow> (c # w) # ws)))"

text \<open>\<open>sep.join(xs)\<close>\<close>

fun join :: "string \<Rightarrow> string list \<Rightarrow> string" where
  "join sep [] = []"
| "join sep [x] = x"
| "join sep (x # y # ys) = x @ sep @ join sep (y # ys)"

text \<open>\<open>re.search(r'[a-zA-Z]{2,}', s)\<close>: two ASCII letters in a row somewhere in \<open>s\<close>.\<close>

fun has_two_letters :: "string \<Rightarrow> bool" where
  "has_two_letters (c # d # cs) = ((isalpha c \<and> isalpha d) \<or> has_two_letters (d # cs))"
| "has_two_letters _ = False"

section \<open>The noise predicate of the per-header harvest\<close>

text \<open>The list \<open>nav_elements\<close> of \<open>click_and_extract_subprograms\<close>.\<close>

definition nav_elements :: "string list" where
  "nav_elements =
    [''home'', ''about'', ''contact'', ''menu'', ''skip to content'',
     ''services'', ''about us'', ''find'', ''resources'', ''guides'',
     ''participate'', ''search'', ''login'', ''register'', ''sign in'',
     ''education institutions'', ''find education'', ''copyright'',
     ''privacy'', ''terms'', ''sitemap'', ''faq'', ''help'',
     ''click'', ''toggle'', ''close'', ''open'', ''show'', ''hide'',
     ''programs offered'', ''next'', ''previous'', ''submit'',
     ''apply now'', ''learn more'', ''read more'', ''view all'',
     ''download'', ''upload'', ''back'', ''forward'', ''continue'', ''proceed'',
     ''cancel'', ''ok'', ''yes'', ''no'', ''submit'', ''reset'', ''clear'',
     ''navigate'', ''expand'', ''collapse'', ''menu'', ''dropdown'']"

text \<open>
  \<open>any(nav == text_lower or (len(nav) > 4 and nav in text_lower) for nav in navs)\<close>
\<close>

definition nav_match :: "string list \<Rightarrow> string \<Rightarrow> bool" where
  "nav_match navs text_lower =
     list_ex (\<lambda>nav. nav = text_lower \<or> (length nav > 4 \<and> contains text_lower nav)) navs"

text \<open>
  The three anchored patterns of \<open>is_nav_element\<close>. Each is some white space, then a
  part X, then some white space, between the start and the end of the text, and no
  character of X is white space, so it matches exactly when the stripped text matches X:
  one or more of the six bracket characters (square, round, angle), one or more digits,
  and one single arrow character, of which the two angle brackets are the ASCII ones.
\<close>

definition only_brackets :: "string \<Rightarrow> bool" where
  "only_brackets text = (strip text \<noteq> [] \<and> list_all (\<lambda>c. c \<in> set ''[(<>)]'') (strip text))"

definition only_number :: "string \<Rightarrow> bool" where
  "only_number text = (strip text \<noteq> [] \<and> list_all isdigit (strip text))"

definition only_arrow :: "string \<Rightarrow> bool" where
  "only_arrow text = (case strip text of [c] \<Rightarrow> c \<in> set ''<>'' | _ \<Rightarrow> False)"

definition is_nav_element :: "string \<Rightarrow> bool" where
  "is_nav_element text =
     (if text = [] \<or> length (strip text) < 3 then True
      else if nav_match nav_elements (strip (lower text)) then True
      else if only_brackets text then True
      else if only_number text then True
      else if only_arrow text then True
      else if length text < 5 \<and> \<not> has_two_letters text then True
      else False)"

section \<open>The document view\<close>

text \<open>
  The browser is outside the program. Every call the program makes on the page or on an
  element handle either returns a value or raises; the model takes the outcome of each
  call as given, one field per call site, and \<open>Inl\<close> is a raised exception.
\<close>

datatype error = PlaywrightError

type_synonym 'a result = "error + 'a"

datatype element = Element nat

section \<open>Per-header harvest: \<open>click_and_extract_subprograms\<close>\<close>

text \<open>
  What the scripts evaluated in the page hand back: a container found after the click is
  its type and the texts of its items; a visible element is its text and two flags.
\<close>

datatype container_type = ListType | ContainerType

record container =
  ctype :: container_type
  items :: "string list"

record visible_element =
  inner_text :: string
  isListItem :: bool
  isParagraph :: bool

text \<open>
  The outcomes of the calls of one run of the harvest. The two clicks and the waits after
  them are inside \<open>try ... except\<close> blocks that swallow every error and bind no value, so
  they reach the result only through what the later queries answer.
\<close>

record harvest_view =
  before_content :: "unit result"
  attr_href :: "string option result"
  attr_data_bs_target :: "string option result"
  attr_data_target :: "string option result"
  query_target :: "string \<Rightarrow> element option result"
  force_visible :: "string \<Rightarrow> unit result"
  target_items :: "string \<Rightarrow> string list result"
  after_content :: "container list result"
  after_elements :: "visible_element list result"
  sibling_items :: "string list result"

text \<open>
  The \<open>target_id\<close> read from \<open>href\<close>, else from \<open>data-bs-target\<close> or \<open>data-target\<close>; an error
  of any of the reads leaves it \<open>None\<close>.
\<close>

definition hash_target :: "string option \<Rightarrow> string option" where
  "hash_target a = (case a of Some (c # cs) \<Rightarrow> if c = CHR ''#'' then Some cs else None | _ \<Rightarrow> None)"

definition truthy :: "string option \<Rightarrow> bool" where
  "truthy a = (case a of Some (c # cs) \<Rightarrow> True | _ \<Rightarrow> False)"

definition target_id :: "harvest_view \<Rightarrow> string option" where
  "target_id v =
     (case attr_href v of
        Inl e \<Rightarrow> None
      | Inr href \<Rightarrow>
          if hash_target href \<noteq> None then hash_target href
          else (case attr_data_bs_target v of
                  Inl e \<Rightarrow> None
                | Inr bs \<Rightarrow>
                    if truthy bs then hash_target bs
                    else (case attr_data_target v of
                            Inl e \<Rightarrow> None
                          | Inr dt \<Rightarrow> hash_target dt)))"

text \<open>\<open>for item in items: if item and item not in subprograms: subprograms.append(item)\<close>\<close>

fun append_new :: "string list \<Rightarrow> string list \<Rightarrow> string list" where
  "append_new [] subprograms = subprograms"
| "append_new (item # rest) subprograms =
     (if item \<noteq> [] \<and> item \<notin> set subprograms then append_new rest (subprograms @ [item])
      else append_new rest subprograms)"

text \<open>The step through the target container; every error inside it ends the step.\<close>

definition target_step :: "harvest_view \<Rightarrow> string list" where
  "target_step v =
     (case target_id v of
        None \<Rightarrow> []
      | Some tid \<Rightarrow>
          if tid = [] then []
          else (case query_target v tid of
                  Inl e \<Rightarrow> []
                | Inr None \<Rightarrow> []
                | Inr (Some target_elem) \<Rightarrow>
                    (case force_visible v tid of
                       Inl e \<Rightarrow> []
                     | Inr u \<Rightarrow>
                         (case target_items v tid of
                            Inl e \<Rightarrow> []
                          | Inr its \<Rightarrow> append_new its []))))"

text \<open>
  \<open>main_words.issubset(item_words) or item_words.issubset(main_words)\<close> on the sets of the
  lower-cased, white-space separated words.
\<close>

definition words :: "string \<Rightarrow> string set" where
  "words s = set (split_ws (lower s))"

definition similar_to_title :: "string \<Rightarrow> string \<Rightarrow> bool" where
  "similar_to_title main_title clean_item =
     (words main_title \<subseteq> words clean_item \<or> words clean_item \<subseteq> words main_title)"

text \<open>
  The loop that the three later steps share. The loop over a container found after the
  click also tests \<open>item\<close> for emptiness first (\<open>check_item\<close>); the others do not.
\<close>

fun filter_loop :: "bool \<Rightarrow> string \<Rightarrow> string list \<Rightarrow> string list \<Rightarrow> string list" where
  "filter_loop check_item main_title [] subprograms = subprograms"
| "filter_loop check_item main_title (item # rest) subprograms =
     (if (check_item \<longrightarrow> item \<noteq> []) \<and> item \<noteq> main_title \<and> item \<notin> set subprograms
      then (let clean_item = strip (first_line item)
            in if clean_item \<noteq> [] \<and> length clean_item > 2 \<and> \<not> is_nav_element clean_item
                  \<and> \<not> similar_to_title main_title clean_item
               then filter_loop check_item main_title rest (subprograms @ [clean_item])
               else filter_loop check_item main_title rest subprograms)
      else filter_loop check_item main_title rest subprograms)"

text \<open>The step over what became visible after the click.\<close>

definition after_click_step :: "harvest_view \<Rightarrow> string \<Rightarrow> string list" where
  "after_click_step v main_title =
     (case after_content v of
        Inl e \<Rightarrow> []
      | Inr [] \<Rightarrow>
          (case after_elements v of
             Inl e \<Rightarrow> []
           | Inr els \<Rightarrow>
               (let list_items = map inner_text (filter isListItem els);
                    paragraphs = map inner_text (filter isParagraph els)
                in if list_items \<noteq> [] then filter_loop False main_title list_items []
                   else if paragraphs \<noteq> [] then filter_loop False main_title paragraphs []
                   else []))
      | Inr (c # cs) \<Rightarrow>
          (let list_containers = filter (\<lambda>c. ctype c = ListType) (c # cs);
               chosen = (case list_containers of [] \<Rightarrow> c | l # ls \<Rightarrow> l)
           in filter_loop True main_title (items chosen) []))"

text \<open>The step over the siblings that follow the header.\<close>

definition sibling_step :: "harvest_view \<Rightarrow> string \<Rightarrow> string list" where
  "sibling_step v main_title =
     (case sibling_items v of
        Inl e \<Rightarrow> []
      | Inr its \<Rightarrow> filter_loop False main_title its [])"

text \<open>
  The harvest. The snapshot taken before the click is the one call outside every
  \<open>try\<close>: its error is the only one that reaches the caller.
\<close>

definition click_and_extract_subprograms :: "harvest_view \<Rightarrow> string \<Rightarrow> string list result" where
  "click_and_extract_subprograms v main_title =
     (case before_content v of
        Inl e \<Rightarrow> Inl e
      | Inr u \<Rightarrow>
          (let subprograms = target_step v;
               subprograms = (if subprograms = [] then after_click_step v main_title else subprograms);
               subprograms = (if subprograms = [] then sibling_step v main_title else subprograms)
           in Inr subprograms))"

section \<open>The disclosure locator: \<open>click_and_expand_accordion\<close>\<close>

text \<open>The outcomes of the calls of one run of the locator.\<close>

record locator_view =
  load_state :: "unit result"
  wait_trigger :: "string \<Rightarrow> element option result"
  aria_expanded :: "element \<Rightarrow> string option result"
  click :: "element \<Rightarrow> unit result"
  js_click :: "element \<Rightarrow> unit result"
  settle :: "unit result"
  trigger_href :: "element \<Rightarrow> string option result"
  trigger_data_bs_target :: "element \<Rightarrow> string option result"
  wait_content :: "string \<Rightarrow> element option result"
  is_visible :: "element \<Rightarrow> bool result"
  make_visible :: "string \<Rightarrow> unit result"
  settle_visible :: "unit result"
  content_element :: "element \<Rightarrow> bool result"
  wait_container :: "string \<Rightarrow> element option result"
  query_selector :: "string \<Rightarrow> element option result"

definition selectors :: "string \<Rightarrow> string list" where
  \<open>selectors label =
    [''a[role="button"][data-bs-toggle="collapse"]:has-text("'' @ label @ ''")'',
     ''a[role="button"]:has-text("'' @ label @ ''")'',
     ''button[data-bs-toggle="collapse"]:has-text("'' @ label @ ''")'',
     ''[data-bs-toggle="collapse"]:has-text("'' @ label @ ''")'',
     ''[data-toggle="collapse"]:has-text("'' @ label @ ''")'',
     ''button.accordion-button:has-text("'' @ label @ ''")'',
     ''.accordion-header:has-text("'' @ label @ ''")'',
     ''.card-header:has-text("'' @ label @ ''")'',
     ''.panel-heading:has-text("'' @ label @ ''")'',
     ''a:has-text("'' @ label @ ''")'',
     ''div.accordion:has-text("'' @ label @ ''")'',
     ''div:has-text("'' @ label @ ''")'',
     ''h3:has-text("'' @ label @ ''")'',
     ''h4:has-text("'' @ label @ ''")'',
     ''h5:has-text("'' @ label @ ''")'',
     ''*:has-text("'' @ label @ ''")'']\<close>

definition content_selectors :: "string list" where
  \<open>content_selectors =
    [''.collapse.show'', ''.accordion-body'', ''.card-body'', ''.panel-body'', ''.content'',
     ''[role="tabpanel"]'']\<close>

definition last_resort_selectors :: "string list" where
  \<open>last_resort_selectors =
    [''div:has-text("Programs")'', ''div:has-text("Courses")'', ''[class*="program"]'',
     ''[class*="course"]'']\<close>

text \<open>
  A loop over selectors with the \<open>try\<close> inside the loop: a probe that raises or finds
  nothing moves on to the next selector.
\<close>

fun first_found :: "(string \<Rightarrow> element option result) \<Rightarrow> string list \<Rightarrow> element option" where
  "first_found probe [] = None"
| "first_found probe (selector # rest) =
     (case probe selector of
        Inr (Some el) \<Rightarrow> Some el
      | _ \<Rightarrow> first_found probe rest)"

text \<open>
  A loop over selectors with the \<open>try\<close> around the loop: a probe that raises ends the
  loop.
\<close>

fun first_found_until_error :: "(string \<Rightarrow> element option result) \<Rightarrow> string list \<Rightarrow> element option" where
  "first_found_until_error probe [] = None"
| "first_found_until_error probe (selector # rest) =
     (case probe selector of
        Inl e \<Rightarrow> None
      | Inr (Some el) \<Rightarrow> Some el
      | Inr None \<Rightarrow> first_found_until_error probe rest)"

text \<open>The click that expands the trigger, with the scripted click as fallback, then the wait.\<close>

definition expand_trigger :: "locator_view \<Rightarrow> element \<Rightarrow> unit result" where
  "expand_trigger v el =
     (case aria_expanded v el of
        Inl e \<Rightarrow> Inl e
      | Inr a \<Rightarrow>
          if a \<noteq> Some ''true''
          then (case click v el of
                  Inr u \<Rightarrow> settle v
                | Inl e \<Rightarrow> (case js_click v el of Inl e' \<Rightarrow> Inl e' | Inr u \<Rightarrow> settle v))
          else Inr ())"

text \<open>\<open>element.get_attribute('href') or element.get_attribute('data-bs-target')\<close>\<close>

definition trigger_target :: "locator_view \<Rightarrow> element \<Rightarrow> string option result" where
  "trigger_target v el =
     (case trigger_href v el of
        Inl e \<Rightarrow> Inl e
      | Inr h \<Rightarrow> if truthy h then Inr h else trigger_data_bs_target v el)"

definition content_id_selector :: "string \<Rightarrow> string" where
  \<open>content_id_selector content_id = ''#'' @ content_id @ '', div[id="'' @ content_id @ ''"]''\<close>

text \<open>The content looked up by its id; an error here only ends this lookup.\<close>

definition content_by_id :: "locator_view \<Rightarrow> string \<Rightarrow> element option" where
  "content_by_id v content_id =
     (case wait_content v (content_id_selector content_id) of
        Inl e \<Rightarrow> None
      | Inr None \<Rightarrow> None
      | Inr (Some content) \<Rightarrow>
          (case is_visible v content of
             Inl e \<Rightarrow> None
           | Inr True \<Rightarrow> Some content
           | Inr False \<Rightarrow>
               (case make_visible v content_id of
                  Inl e \<Rightarrow> None
                | Inr u \<Rightarrow> (case settle_visible v of Inl e \<Rightarrow> None | Inr u' \<Rightarrow> Some content))))"

text \<open>
  The large \<open>try\<close> block after the trigger is found: \<open>Some\<close> is the content it returns,
  \<open>None\<close> is falling through to the last resort, by exhaustion or by a caught error.
\<close>

definition resolve_content :: "locator_view \<Rightarrow> element \<Rightarrow> element option" where
  "resolve_content v el =
     (case expand_trigger v el of
        Inl e \<Rightarrow> None
      | Inr u \<Rightarrow>
          (case trigger_target v el of
             Inl e \<Rightarrow> None
           | Inr target \<Rightarrow>
               (case (case hash_target target of
                        None \<Rightarrow> None
                      | Some content_id \<Rightarrow> content_by_id v content_id) of
                  Some content \<Rightarrow> Some content
                | None \<Rightarrow>
                    (case content_element v el of
                       Inl e \<Rightarrow> None
                     | Inr found \<Rightarrow>
                         if found then first_found (wait_container v) content_selectors
                         else None))))"

definition last_resort :: "locator_view \<Rightarrow> element option" where
  "last_resort v = first_found_until_error (query_selector v) last_resort_selectors"

definition click_and_expand_accordion :: "locator_view \<Rightarrow> string \<Rightarrow> element option result" where
  "click_and_expand_accordion v label =
     (case load_state v of
        Inl e \<Rightarrow> Inl e
      | Inr u \<Rightarrow>
          (case first_found (wait_trigger v) (selectors label) of
             None \<Rightarrow> Inr None
           | Some el \<Rightarrow>
               (case resolve_content v el of
                  Some content \<Rightarrow> Inr (Some content)
                | None \<Rightarrow> Inr (last_resort v))))"

text \<open>The caller's \<open>try ... except\<close> around the locator: an error is \<open>None\<close>.\<close>

definition accordion_content :: "locator_view \<Rightarrow> element option" where
  "accordion_content v =
     (case click_and_expand_accordion v ''Programs Offered'' of
        Inl e \<Rightarrow> None
      | Inr content \<Rightarrow> content)"

section \<open>Category-header discovery\<close>

type_synonym main_program = "string \<times> element"

definition main_program_selectors :: "string list" where
  \<open>main_program_selectors =
    [''h3'', ''h4'', ''h5'', ''strong'', ''.program-title'', ''.main-program'',
     ''div[class*="header"]'', ''.accordion-button'', ''.card-header'',
     ''div[role="button"]'', ''a[role="button"]'', ''.panel-heading'',
     ''.accordion-header'', ''button[data-toggle="collapse"]'',
     ''[class*="accordion"]'', ''a[data-toggle="tab"]'', ''[class*="tab-header"]'',
     ''.nav-link'', ''[data-bs-toggle="collapse"]'', ''[data-bs-toggle="tab"]'',
     ''.btn-accordion'', ''.toggle-trigger'', ''.dropdown-toggle'']\<close>

text \<open>
  The elements of one selector family, each with the outcome of reading its text. The
  second component of the result is False when a read raised: the titles appended before
  the error stay in \<open>main_programs\<close>, and the rest of the family is not read.
\<close>

fun scan_family ::
  "(element \<times> string result) list \<Rightarrow> main_program list \<Rightarrow> main_program list \<times> bool" where
  "scan_family [] main_programs = (main_programs, True)"
| "scan_family ((el, Inl e) # rest) main_programs = (main_programs, False)"
| "scan_family ((el, Inr txt) # rest) main_programs =
     (if txt \<noteq> [] \<and> length (strip txt) > 1
      then (let title = strip txt
            in if \<not> list_ex (\<lambda>p. fst p = title) main_programs
               then scan_family rest (main_programs @ [(title, el)])
               else scan_family rest main_programs)
      else scan_family rest main_programs)"

text \<open>
  The loop over the selector families, with the \<open>try\<close> inside the loop. \<open>query\<close> is
  \<open>accordion_content.query_selector_all\<close>.
\<close>

fun scan_selectors ::
  "(string \<Rightarrow> (element \<times> string result) list result) \<Rightarrow> string list \<Rightarrow> main_program list
     \<Rightarrow> main_program list" where
  "scan_selectors query [] main_programs = main_programs"
| "scan_selectors query (selector # rest) main_programs =
     (case query selector of
        Inl e \<Rightarrow> scan_selectors query rest main_programs
      | Inr elements \<Rightarrow>
          if elements \<noteq> []
          then (case scan_family elements main_programs of
                  (main_programs', False) \<Rightarrow> scan_selectors query rest main_programs'
                | (main_programs', True) \<Rightarrow>
                    if main_programs' \<noteq> [] \<and> length main_programs' > 1 then main_programs'
                    else scan_selectors query rest main_programs')
          else scan_selectors query rest main_programs)"

text \<open>
  The scan over the clickable elements, used when no family gave a title. Only an element
  with an id gets a selector: the two other branches call \<open>toLowerCase\<close> on a Python
  string, which raises, and the error skips the element.
\<close>

record clickable =
  clickable_text :: string
  clickable_selector :: "string option"
  className :: string
  tagName :: string
  index :: "int option"

fun clickable_loop ::
  "(string \<Rightarrow> element option result) \<Rightarrow> (string \<Rightarrow> element option result) \<Rightarrow> clickable list
     \<Rightarrow> main_program list \<Rightarrow> main_program list" where
  "clickable_loop wait retry [] main_programs = main_programs"
| "clickable_loop wait retry (item # rest) main_programs =
     (case clickable_selector item of
        None \<Rightarrow> clickable_loop wait retry rest main_programs
      | Some selector \<Rightarrow>
          if selector = [] then clickable_loop wait retry rest main_programs
          else (case wait selector of
                  Inr (Some el) \<Rightarrow>
                    clickable_loop wait retry rest (main_programs @ [(clickable_text item, el)])
                | Inr None \<Rightarrow> clickable_loop wait retry rest main_programs
                | Inl e \<Rightarrow>
                    if startswith selector ''//''
                    then (case retry selector of
                            Inr (Some el) \<Rightarrow>
                              clickable_loop wait retry rest
                                (main_programs @ [(clickable_text item, el)])
                          | _ \<Rightarrow> clickable_loop wait retry rest main_programs)
                    else clickable_loop wait retry rest main_programs))"

section \<open>Dictionaries\<close>

text \<open>
  A Python \<open>dict\<close> keeps its keys in insertion order, and an assignment to a key it
  already has replaces the value in place: an association list with these two operations.
\<close>

fun dict_set :: "('k \<times> 'v) list \<Rightarrow> 'k \<Rightarrow> 'v \<Rightarrow> ('k \<times> 'v) list" where
  "dict_set [] k v = [(k, v)]"
| "dict_set ((k', v') # d) k v = (if k' = k then (k, v) # d else (k', v') # dict_set d k v)"

definition dict_get :: "('k \<times> 'v) list \<Rightarrow> 'k \<Rightarrow> 'v \<Rightarrow> 'v" where
  "dict_get d k dflt = (case map_of d k of None \<Rightarrow> dflt | Some v \<Rightarrow> v)"

text \<open>\<open>d[k].append(x)\<close> for a key that \<open>d\<close> has.\<close>

fun dict_append :: "('k \<times> 'v list) list \<Rightarrow> 'k \<Rightarrow> 'v \<Rightarrow> ('k \<times> 'v list) list" where
  "dict_append [] k x = []"
| "dict_append ((k', v') # d) k x =
     (if k' = k then (k', v' @ [x]) # d else (k', v') # dict_append d k x)"

text \<open>\<open>del d[k]\<close> behind the test \<open>k in d\<close>.\<close>

definition dict_del :: "('k \<times> 'v) list \<Rightarrow> 'k \<Rightarrow> ('k \<times> 'v) list" where
  "dict_del d k = filter (\<lambda>p. fst p \<noteq> k) d"

section \<open>Cleaning the harvested items of one category\<close>

text \<open>The list \<open>nav_elements\<close> of the cleaning loop.\<close>

definition nav_elements_clean :: "string list" where
  "nav_elements_clean =
    [''home'', ''about'', ''contact'', ''menu'', ''skip to content'',
     ''services'', ''about us'', ''find'', ''resources'', ''guides'',
     ''participate'', ''search'', ''login'', ''register'', ''sign in'',
     ''education institutions'', ''find education'', ''copyright'',
     ''privacy'', ''terms'', ''sitemap'', ''faq'', ''help'',
     ''click'', ''toggle'', ''close'', ''open'', ''show'', ''hide'',
     ''programs offered'', ''next'', ''previous'', ''submit'',
     ''apply now'', ''learn more'', ''read more'', ''view all'']"

fun duplicate_count :: "string list \<Rightarrow> (string \<times> nat) list \<Rightarrow> (string \<times> nat) list" where
  "duplicate_count [] d = d"
| "duplicate_count (sub # rest) d =
     (if sub \<noteq> [] \<and> strip sub \<noteq> []
      then duplicate_count rest (dict_set d (strip sub) (dict_get d (strip sub) 0 + 1))
      else duplicate_count rest d)"

definition repeated_elements :: "string list \<Rightarrow> string list" where
  "repeated_elements sub_programs =
     map fst (filter (\<lambda>p. snd p \<ge> 3) (duplicate_count sub_programs []))"

text \<open>
  \<open>re.search(r'\d{2}[:/]\d{2}[:/]\d{2,4}', s)\<close>: two digits, a colon or slash, two digits,
  a colon or slash, two digits, somewhere in \<open>s\<close>.
\<close>

definition date_here :: "string \<Rightarrow> bool" where
  "date_here s =
     (case s of
        a # b # p # c # d # q # e # f # r \<Rightarrow>
          isdigit a \<and> isdigit b \<and> p \<in> set '':/'' \<and> isdigit c \<and> isdigit d \<and> q \<in> set '':/''
          \<and> isdigit e \<and> isdigit f
      | _ \<Rightarrow> False)"

fun looks_like_date :: "string \<Rightarrow> bool" where
  "looks_like_date [] = False"
| "looks_like_date (c # cs) = (date_here (c # cs) \<or> looks_like_date cs)"

text \<open>\<open>re.match(r'^[\d\s\.,]+$', s)\<close>: only digits, white space, full stops and commas.\<close>

definition just_numbers :: "string \<Rightarrow> bool" where
  "just_numbers s = (s \<noteq> [] \<and> list_all (\<lambda>c. isdigit c \<or> isspace c \<or> c \<in> set ''.,'') s)"

text \<open>
  The tests of the cleaning loop on one harvested item, up to the similarity test:
  \<open>None\<close> is \<open>continue\<close>, \<open>Some\<close> is the cleaned text that goes on.
\<close>

definition clean_sub :: "string list \<Rightarrow> string \<Rightarrow> string \<Rightarrow> string option" where
  "clean_sub repeated main_title sub =
     (if sub = [] \<or> length (strip sub) < 3 then None
      else if strip sub \<in> set repeated then None
      else if list_ex (\<lambda>nav. lower nav = lower (strip sub)
                        \<or> (length nav > 4 \<and> contains (lower (strip sub)) (lower nav)))
                nav_elements_clean then None
      else if strip sub = strip main_title then None
      else if contains (lower (strip sub)) ''http'' \<or> contains (lower (strip sub)) ''www.'' then None
      else if looks_like_date (strip sub) \<or> just_numbers (strip sub) then None
      else if length (strip sub) > 100
      then (let first = strip (first_line (strip sub))
            in if first \<noteq> [] \<and> length first < 100
                  \<and> \<not> list_ex (\<lambda>nav. contains (lower first) (lower nav)) nav_elements_clean
               then Some first else None)
      else Some (strip sub))"

text \<open>
  \<open>existing.lower() in clean_sub.lower() or clean_sub.lower() in existing.lower()\<close>
\<close>

definition one_contains_other :: "string \<Rightarrow> string \<Rightarrow> bool" where
  "one_contains_other existing c =
     (contains (lower c) (lower existing) \<or> contains (lower existing) (lower c))"

definition similar_exists :: "string list \<Rightarrow> string \<Rightarrow> bool" where
  "similar_exists clean_subs c =
     list_ex (\<lambda>existing. length existing > 0 \<and> length c > 0 \<and> one_contains_other existing c)
       clean_subs"

fun clean_loop :: "string list \<Rightarrow> string \<Rightarrow> string list \<Rightarrow> string list \<Rightarrow> string list" where
  "clean_loop repeated main_title [] clean_subs = clean_subs"
| "clean_loop repeated main_title (sub # rest) clean_subs =
     (case clean_sub repeated main_title sub of
        None \<Rightarrow> clean_loop repeated main_title rest clean_subs
      | Some c \<Rightarrow>
          if c \<noteq> [] \<and> \<not> similar_exists clean_subs c \<and> c \<notin> set clean_subs
          then clean_loop repeated main_title rest (clean_subs @ [c])
          else clean_loop repeated main_title rest clean_subs)"

definition clean_subs :: "string \<Rightarrow> string list \<Rightarrow> string list" where
  "clean_subs main_title sub_programs =
     clean_loop (repeated_elements sub_programs) main_title sub_programs []"

section \<open>Building the program structure\<close>

type_synonym program_structure = "(string \<times> string list) list"

text \<open>
  The loop over the main programs; \<open>harvest_at idx\<close> is what the page answers while the
  header at position \<open>idx\<close> is harvested. The state is \<open>program_structure\<close> and
  \<open>flat_programs\<close>. An error of the harvest skips the header.
\<close>

fun structure_loop ::
  "(nat \<Rightarrow> harvest_view) \<Rightarrow> nat \<Rightarrow> main_program list \<Rightarrow> program_structure \<times> string list
     \<Rightarrow> program_structure \<times> string list" where
  "structure_loop harvest_at idx [] st = st"
| "structure_loop harvest_at idx ((main_title, el) # rest) (ps, flat_programs) =
     (case click_and_extract_subprograms (harvest_at idx) main_title of
        Inl e \<Rightarrow> structure_loop harvest_at (Suc idx) rest (ps, flat_programs)
      | Inr sub_programs \<Rightarrow>
          if sub_programs \<noteq> []
          then (let cs = clean_subs main_title sub_programs
                in structure_loop harvest_at (Suc idx) rest
                     (dict_set ps main_title cs,
                      flat_programs @ map (\<lambda>sub. main_title @ '' - '' @ sub) cs))
          else structure_loop harvest_at (Suc idx) rest
                 (dict_set ps main_title [], flat_programs @ [main_title]))"

subsection \<open>The structure parsed from the text of the container\<close>

definition is_word_char :: "char \<Rightarrow> bool" where
  "is_word_char c = (isalpha c \<or> isdigit c \<or> c = CHR ''_'')"

text \<open>
  \<open>re.match(r'^\d+[\.\)]\s+\w', line)\<close>: digits, a full stop or closing bracket, white
  space, a word character.
\<close>

definition numbered_line :: "string \<Rightarrow> bool" where
  "numbered_line line =
     (takeWhile isdigit line \<noteq> [] \<and>
      (case dropWhile isdigit line of
         [] \<Rightarrow> False
       | p # r \<Rightarrow> p \<in> set ''.)'' \<and> takeWhile isspace r \<noteq> [] \<and>
                  (case dropWhile isspace r of [] \<Rightarrow> False | w # r' \<Rightarrow> is_word_char w)))"

definition endswith_colon :: "string \<Rightarrow> bool" where
  "endswith_colon line = (line \<noteq> [] \<and> last line = CHR '':'')"

text \<open>\<open>s.isupper()\<close>: some cased character, and no lower-case one.\<close>

definition isupper :: "string \<Rightarrow> bool" where
  "isupper s = (list_ex isupper_char s \<and> \<not> list_ex islower_char s)"

text \<open>\<open>w[0].isupper()\<close> on a text that is not empty.\<close>

definition first_isupper :: "string \<Rightarrow> bool" where
  "first_isupper w = (case w of [] \<Rightarrow> False | c # cs \<Rightarrow> isupper_char c)"

definition is_main_program :: "string \<Rightarrow> bool" where
  "is_main_program line =
     (if numbered_line line then True
      else if endswith_colon line then True
      else if length (split_ws line) < 5 \<and> (isupper line \<or> first_isupper line) then True
      else if list_all first_isupper (filter (\<lambda>w. w \<noteq> []) (split_ws line)) then True
      else False)"

text \<open>\<open>s.rstrip(':')\<close>\<close>

definition rstrip_colon :: "string \<Rightarrow> string" where
  "rstrip_colon s = rev (dropWhile (\<lambda>c. c = CHR '':'') (rev s))"

text \<open>\<open>[line.strip() for line in content_text.split('\n') if line.strip()]\<close>\<close>

definition text_lines :: "string \<Rightarrow> string list" where
  "text_lines content_text =
     map strip (filter (\<lambda>line. strip line \<noteq> []) (split_on (CHR 0x0A) content_text))"

fun parse_lines :: "string list \<Rightarrow> string option \<Rightarrow> program_structure \<Rightarrow> program_structure" where
  "parse_lines [] current_main_program ps = ps"
| "parse_lines (line # rest) current_main_program ps =
     (if is_main_program line
      then (let c = rstrip_colon (strip line) in parse_lines rest (Some c) (dict_set ps c []))
      else (case current_main_program of
              None \<Rightarrow> parse_lines rest current_main_program ps
            | Some c \<Rightarrow>
                if c \<noteq> [] \<and> line \<noteq> []
                then parse_lines rest current_main_program (dict_append ps c (strip line))
                else parse_lines rest current_main_program ps))"

definition parse_text :: "string result \<Rightarrow> program_structure" where
  "parse_text content_text =
     (case content_text of
        Inl e \<Rightarrow> []
      | Inr txt \<Rightarrow> if txt \<noteq> [] then parse_lines (text_lines txt) None [] else [])"

text \<open>The flat list made from a parsed structure.\<close>

fun flat_of_structure :: "program_structure \<Rightarrow> string list" where
  "flat_of_structure [] = []"
| "flat_of_structure ((main, subs) # rest) =
     (if subs \<noteq> [] then map (\<lambda>sub. main @ '' - '' @ sub) subs else [main])
     @ flat_of_structure rest"

subsection \<open>The flat list scraped by selector\<close>

definition flat_selectors :: "string list" where
  \<open>flat_selectors =
    [''li'', ''.list-item'', ''p'', ''div[class*="program"]'', ''div[class*="item"]'', ''.card'',
     ''span'']\<close>

text \<open>
  The texts of the elements of one selector; the second component is False when a read
  raised, and then the texts appended so far stay.
\<close>

fun flat_family :: "string result list \<Rightarrow> string list \<Rightarrow> string list \<times> bool" where
  "flat_family [] flat_programs = (flat_programs, True)"
| "flat_family (Inl e # rest) flat_programs = (flat_programs, False)"
| "flat_family (Inr prog_text # rest) flat_programs =
     (if prog_text \<noteq> [] \<and> length (strip prog_text) > 1
      then flat_family rest (flat_programs @ [strip prog_text])
      else flat_family rest flat_programs)"

fun flat_loop ::
  "(string \<Rightarrow> string result list result) \<Rightarrow> string list \<Rightarrow> string list \<Rightarrow> string list" where
  "flat_loop query [] flat_programs = flat_programs"
| "flat_loop query (selector # rest) flat_programs =
     (case query selector of
        Inl e \<Rightarrow> flat_loop query rest flat_programs
      | Inr prog_items \<Rightarrow>
          if prog_items \<noteq> []
          then (case flat_family prog_items flat_programs of
                  (flat_programs', False) \<Rightarrow> flat_loop query rest flat_programs'
                | (flat_programs', True) \<Rightarrow>
                    if flat_programs' \<noteq> [] then flat_programs'
                    else flat_loop query rest flat_programs')
          else flat_loop query rest flat_programs)"

subsection \<open>The extraction on one detail page\<close>

text \<open>What the detail page of one provider answers during the extraction.\<close>

record page_view =
  locator :: locator_view
  query_selector_all :: "string \<Rightarrow> (element \<times> string result) list result"
  clickable_elements :: "clickable list result"
  wait_clickable :: "string \<Rightarrow> element option result"
  retry_clickable :: "string \<Rightarrow> element option result"
  harvest_at :: "nat \<Rightarrow> harvest_view"
  content_text :: "string result"
  program_items :: "string \<Rightarrow> string result list result"

definition main_programs_of :: "page_view \<Rightarrow> main_program list" where
  "main_programs_of pg =
     (let main_programs = scan_selectors (query_selector_all pg) main_program_selectors []
      in if main_programs = []
         then (case clickable_elements pg of
                 Inl e \<Rightarrow> []
               | Inr found \<Rightarrow> clickable_loop (wait_clickable pg) (retry_clickable pg) found [])
         else main_programs)"

text \<open>
  \<open>program_structure\<close> and \<open>flat_programs\<close> once the container is there: the headers and
  their harvests, else the structure parsed from the text, else the flat list.
\<close>

definition extract_from_content :: "page_view \<Rightarrow> program_structure \<times> string list" where
  "extract_from_content pg =
     (case structure_loop (harvest_at pg) 0 (main_programs_of pg) ([], []) of
        (ps, flat_programs) \<Rightarrow>
          if ps = []
          then (let ps' = parse_text (content_text pg);
                    flat_programs' =
                      (if ps' \<noteq> [] then flat_programs @ flat_of_structure ps' else flat_programs)
                in (ps',
                    if flat_programs' = []
                    then flat_loop (program_items pg) flat_selectors flat_programs'
                    else flat_programs'))
          else (ps, flat_programs))"

definition extract_programs :: "page_view \<Rightarrow> program_structure \<times> string list" where
  "extract_programs pg =
     (case accordion_content (locator pg) of
        None \<Rightarrow> ([], [])
      | Some content \<Rightarrow> extract_from_content pg)"

section \<open>The programs field\<close>

type_synonym record_dict = "(string \<times> string) list"

definition detailed_data_of ::
  "string \<Rightarrow> string \<Rightarrow> string \<Rightarrow> string \<Rightarrow> string \<Rightarrow> string \<Rightarrow> string \<Rightarrow> record_dict" where
  "detailed_data_of name area location website email phone address =
     [(''name'', name), (''area'', area), (''listing_location'', location),
      (''website'', website), (''email'', email), (''phone'', phone), (''address'', address)]"

fun unique_loop :: "string list \<Rightarrow> string list \<Rightarrow> string list" where
  "unique_loop [] unique_programs = unique_programs"
| "unique_loop (prog # rest) unique_programs =
     (let prog_clean = strip prog
      in if prog_clean \<noteq> [] \<and> length prog_clean > 2 \<and> prog_clean \<notin> set unique_programs
         then unique_loop rest (unique_programs @ [prog_clean])
         else unique_loop rest unique_programs)"

definition non_program_keywords :: "string list" where
  "non_program_keywords =
    [''home'', ''about us'', ''contact'', ''menu'', ''collapse'', ''expand'',
     ''click'', ''toggle'', ''close'', ''open'', ''show'', ''hide'', ''programs offered'']"

text \<open>The filter on the items of a category when the structure is formatted.\<close>

definition filtered_subs :: "string list \<Rightarrow> string list" where
  "filtered_subs sub_programs =
     filter (\<lambda>sub. sub \<noteq> [] \<and> length (strip sub) > 2
                \<and> \<not> list_ex (\<lambda>nav. contains (lower sub) nav)
                       [''home'', ''about'', ''contact'', ''menu''])
       sub_programs"

fun format_loop :: "program_structure \<Rightarrow> string list \<Rightarrow> string list" where
  "format_loop [] formatted_programs = formatted_programs"
| "format_loop ((main_program, sub_programs) # rest) formatted_programs =
     (if sub_programs \<noteq> []
      then (if filtered_subs sub_programs \<noteq> []
            then format_loop rest
                   (formatted_programs
                    @ [main_program @ '' ('' @ join '', '' (filtered_subs sub_programs) @ '')''])
            else format_loop rest (formatted_programs @ [main_program]))
      else format_loop rest (formatted_programs @ [main_program]))"

definition store_programs :: "record_dict \<Rightarrow> program_structure \<Rightarrow> string list \<Rightarrow> record_dict" where
  "store_programs detailed_data ps flat_programs =
     (let d1 =
        (if flat_programs \<noteq> []
         then (let filtered_programs =
                     filter (\<lambda>prog. lower prog \<notin> set non_program_keywords)
                       (unique_loop flat_programs [])
               in if ps = []
                  then dict_set detailed_data ''programs''
                         (if filtered_programs \<noteq> [] then join ''; '' filtered_programs
                          else ''N/A'')
                  else detailed_data)
         else if map_of detailed_data ''programs'' = None
              then dict_set detailed_data ''programs'' ''N/A''
              else detailed_data);
          d2 =
        (if ps \<noteq> []
         then (let formatted_programs = format_loop ps []
               in dict_set d1 ''programs''
                    (if formatted_programs \<noteq> [] then join ''; '' formatted_programs
                     else ''N/A''))
         else dict_set d1 ''programs'' (dict_get d1 ''programs_offered'' ''N/A''))
      in dict_del (dict_del (dict_del d2 ''programs_offered'') ''formatted_programs'')
           ''program_structure'')"

text \<open>The record of one provider after the extraction on its detail page.\<close>

definition provider_record :: "record_dict \<Rightarrow> page_view \<Rightarrow> record_dict" where
  "provider_record detailed_data pg =
     (case extract_programs pg of
        (ps, flat_programs) \<Rightarrow> store_programs detailed_data ps flat_programs)"

section \<open>Cleaning the programs field before the save\<close>

text \<open>The list \<open>nav_elements\<close> of the save.\<close>

definition nav_elements_save :: "string list" where
  "nav_elements_save =
    [''home'', ''about'', ''contact'', ''menu'', ''skip to content'',
     ''services'', ''about us'', ''find'', ''resources'', ''guides'',
     ''participate'', ''search'', ''login'', ''register'', ''sign in'',
     ''education institutions'', ''find education'', ''copyright'',
     ''privacy'', ''terms'', ''sitemap'', ''faq'', ''help'']"

definition has_nav_word :: "string \<Rightarrow> bool" where
  "has_nav_word prog_item =
     list_ex (\<lambda>nav. contains (lower prog_item) (lower nav)) nav_elements_save"

fun cleaned_loop :: "string list \<Rightarrow> string list \<Rightarrow> string list" where
  "cleaned_loop [] cleaned_programs = cleaned_programs"
| "cleaned_loop (piece # rest) cleaned_programs =
     (let prog_item = strip piece
      in if has_nav_word prog_item then cleaned_loop rest cleaned_programs
         else if prog_item \<noteq> [] \<and> prog_item \<notin> set cleaned_programs
              then cleaned_loop rest (cleaned_programs @ [prog_item])
              else cleaned_loop rest cleaned_programs)"

text \<open>The value saved for a programs field that is not empty.\<close>

definition cleaned_programs_of :: "string \<Rightarrow> string" where
  "cleaned_programs_of programs =
     (let cleaned_programs = cleaned_loop (split_on (CHR '';'') programs) []
      in if cleaned_programs \<noteq> [] then join ''; '' cleaned_programs else ''N/A'')"

definition save_data_of :: "record_dict \<Rightarrow> record_dict" where
  "save_data_of detailed_data =
     (let save_data =
            dict_del (dict_del (dict_del detailed_data ''programs_offered'') ''program_structure'')
              ''formatted_programs''
      in (case map_of save_data ''programs'' of
            None \<Rightarrow> save_data
          | Some programs \<Rightarrow>
              if programs \<noteq> []
              then dict_set save_data ''programs'' (cleaned_programs_of programs)
              else save_data))"

section \<open>Predicates of the properties\<close>

text \<open>
  No item of the list contains another one or is contained in it, case-insensitively
  (so no item occurs twice).
\<close>

fun containment_free :: "string list \<Rightarrow> bool" where
  "containment_free [] = True"
| "containment_free (x # xs) =
     (list_all (\<lambda>y. \<not> one_contains_other x y) xs \<and> containment_free xs)"

text \<open>Every item is non-empty and has no white space at either end.\<close>

definition trimmed_items :: "string list \<Rightarrow> bool" where
  "trimmed_items its = list_all (\<lambda>i. i \<noteq> [] \<and> strip i = i) its"

definition unique_keys :: "program_structure \<Rightarrow> bool" where
  "unique_keys ps = distinct (map fst ps)"

text \<open>The structure that the headers and their harvests give, before any fallback.\<close>

definition header_structure :: "page_view \<Rightarrow> program_structure" where
  "header_structure pg =
     fst (structure_loop (harvest_at pg) 0 (main_programs_of pg) ([], []))"

text \<open>
  The segment of one category in the programs field, as the specification words it: the
  title with the filtered items in brackets, or the bare title when there are none.
\<close>

definition segment :: "string \<times> string list \<Rightarrow> string" where
  "segment c =
     (if filtered_subs (snd c) \<noteq> []
      then fst c @ '' ('' @ join '', '' (filtered_subs (snd c)) @ '')''
      else fst c)"

text \<open>
  The scan of the selector families as the specification words it: a family ends the
  scan when it alone yields more than one new candidate.
\<close>

fun scan_selectors_as_specified ::
  "(string \<Rightarrow> (element \<times> string result) list result) \<Rightarrow> string list \<Rightarrow> main_program list
     \<Rightarrow> main_program list" where
  "scan_selectors_as_specified query [] main_programs = main_programs"
| "scan_selectors_as_specified query (selector # rest) main_programs =
     (case query selector of
        Inl e \<Rightarrow> scan_selectors_as_specified query rest main_programs
      | Inr elements \<Rightarrow>
          (case scan_family elements main_programs of
             (main_programs', ok) \<Rightarrow>
               if length main_programs' - length main_programs > 1 then main_programs'
               else scan_selectors_as_specified query rest main_programs'))"

text \<open>
  The scan of the selector families, described without the loop. The texts of a family
  are read in order up to the first read that raises; a query that raises gives none.
\<close>

fun reads :: "(element \<times> string result) list \<Rightarrow> (element \<times> string) list" where
  "reads [] = []"
| "reads ((el, Inl e) # rest) = []"
| "reads ((el, Inr t) # rest) = (el, t) # reads rest"

definition read_without_error :: "(element \<times> string result) list \<Rightarrow> bool" where
  "read_without_error els = list_all (\<lambda>p. case snd p of Inl e \<Rightarrow> False | Inr t \<Rightarrow> True) els"

definition family_reads ::
  "(string \<Rightarrow> (element \<times> string result) list result) \<Rightarrow> string \<Rightarrow> (element \<times> string) list" where
  "family_reads query selector = (case query selector of Inl e \<Rightarrow> [] | Inr els \<Rightarrow> reads els)"

text \<open>
  A text that is longer than one character after trimming is a candidate: its trimmed
  text as the title, with its element.
\<close>

definition candidates :: "(element \<times> string) list \<Rightarrow> main_program list" where
  "candidates rs =
     map (\<lambda>p. (strip (snd p), fst p))
       (filter (\<lambda>p. snd p \<noteq> [] \<and> length (strip (snd p)) > 1) rs)"

text \<open>The first occurrence of each title: an entry goes when an earlier one has its title.\<close>

fun first_occurrences :: "main_program list \<Rightarrow> main_program list" where
  "first_occurrences [] = []"
| "first_occurrences (p # ps) = p # first_occurrences (filter (\<lambda>r. fst r \<noteq> fst p) ps)"

text \<open>The titles held once all of the families \<open>sels\<close> have been read.\<close>

definition held ::
  "(string \<Rightarrow> (element \<times> string result) list result) \<Rightarrow> string list \<Rightarrow> main_program list" where
  "held query sels = first_occurrences (candidates (concat (map (family_reads query) sels)))"

text \<open>
  The family at position \<open>i\<close> ends the scan: it matched some element, every one of its
  texts was read without error, and more than one title is held after it, the titles of
  the earlier families included.
\<close>

definition stops_at ::
  "(string \<Rightarrow> (element \<times> string result) list result) \<Rightarrow> string list \<Rightarrow> nat \<Rightarrow> bool" where
  "stops_at query sels i =
     (case query (sels ! i) of
        Inl e \<Rightarrow> False
      | Inr els \<Rightarrow>
          els \<noteq> [] \<and> read_without_error els \<and> length (held query (take (Suc i) sels)) > 1)"

section \<open>Example pages\<close>

text \<open>A harvest in which every query finds nothing.\<close>

definition empty_harvest :: harvest_view where
  "empty_harvest =
     \<lparr>before_content = Inr (), attr_href = Inr None, attr_data_bs_target = Inr None,
      attr_data_target = Inr None, query_target = (\<lambda>tid. Inr None),
      force_visible = (\<lambda>tid. Inr ()), target_items = (\<lambda>tid. Inr []),
      after_content = Inr [], after_elements = Inr [], sibling_items = Inr []\<rparr>"

text \<open>A header that points at the panel \<open>panel1\<close>, whose one visible item extends the title.\<close>

definition target_harvest :: harvest_view where
  "target_harvest =
     empty_harvest
       \<lparr>attr_data_bs_target := Inr (Some ''#panel1''),
        query_target := (\<lambda>tid. Inr (Some (Element 7))),
        target_items := (\<lambda>tid. Inr [''Business Management''])\<rparr>"

text \<open>A header without a target; a list is visible after the click.\<close>

definition list_harvest :: harvest_view where
  "list_harvest =
     empty_harvest
       \<lparr>after_content :=
          Inr [\<lparr>ctype = ListType,
                items = [''Business Management'', ''Diploma in Accounting'',
                         ''Diploma in Accounting and Finance'', ''Home'']\<rparr>]\<rparr>"

text \<open>A locator view in which the first trigger selector matches an expanded trigger
  that points at the panel \<open>panel1\<close>, which is visible.\<close>

definition found_locator :: locator_view where
  "found_locator =
     \<lparr>load_state = Inr (), wait_trigger = (\<lambda>sel. Inr (Some (Element 0))),
      aria_expanded = (\<lambda>el. Inr (Some ''true'')), click = (\<lambda>el. Inr ()),
      js_click = (\<lambda>el. Inr ()), settle = Inr (), trigger_href = (\<lambda>el. Inr None),
      trigger_data_bs_target = (\<lambda>el. Inr (Some ''#panel1'')),
      wait_content = (\<lambda>sel. Inr (Some (Element 1))), is_visible = (\<lambda>el. Inr True),
      make_visible = (\<lambda>cid. Inr ()), settle_visible = Inr (),
      content_element = (\<lambda>el. Inr False), wait_container = (\<lambda>sel. Inr None),
      query_selector = (\<lambda>sel. Inr None)\<rparr>"

text \<open>The page never becomes idle: the first wait of the locator raises.\<close>

definition never_idle_locator :: locator_view where
  "never_idle_locator = found_locator\<lparr>load_state := Inl PlaywrightError\<rparr>"

text \<open>No trigger selector matches (every wait times out), while a block whose class
  mentions programs is on the page.\<close>

definition no_trigger_locator :: locator_view where
  "no_trigger_locator =
     found_locator
       \<lparr>wait_trigger := (\<lambda>sel. Inl PlaywrightError),
        query_selector := (\<lambda>sel. Inr (Some (Element 9)))\<rparr>"

text \<open>Nothing on the page matches any selector of the locator.\<close>

definition missing_locator :: locator_view where
  "missing_locator = found_locator\<lparr>wait_trigger := (\<lambda>sel. Inl PlaywrightError)\<rparr>"

text \<open>One \<open>h3\<close>, one \<open>h4\<close> and two \<open>h5\<close> headings in the container.\<close>

definition heading_query :: "string \<Rightarrow> (element \<times> string result) list result" where
  "heading_query sel =
     (if sel = ''h3'' then Inr [(Element 1, Inr ''Alpha'')]
      else if sel = ''h4'' then Inr [(Element 2, Inr ''Beta'')]
      else if sel = ''h5'' then Inr [(Element 3, Inr ''Gamma''), (Element 4, Inr ''Delta'')]
      else Inr [])"

text \<open>Two \<open>h4\<close> headings in the container, the second one after some white space.\<close>

definition two_heading_query :: "string \<Rightarrow> (element \<times> string result) list result" where
  "two_heading_query sel =
     (if sel = ''h4'' then Inr [(Element 2, Inr ''Business''), (Element 3, Inr '' Technology'')]
      else Inr [])"

text \<open>A page whose container has two headings, each harvested from a visible list.\<close>

definition header_page :: page_view where
  "header_page =
     \<lparr>locator = found_locator, query_selector_all = two_heading_query,
      clickable_elements = Inr [], wait_clickable = (\<lambda>sel. Inr None),
      retry_clickable = (\<lambda>sel. Inr None), harvest_at = (\<lambda>idx. list_harvest),
      content_text = Inr [], program_items = (\<lambda>sel. Inr [])\<rparr>"

text \<open>A page whose container has no heading and no clickable element, only three lines
  of text, the last two equal.\<close>

definition text_page :: page_view where
  "text_page =
     header_page
       \<lparr>query_selector_all := (\<lambda>sel. Inr []),
        content_text :=
          Inr (''Business:'' @ [CHR 0x0A] @ ''introduction to accounting for new students''
               @ [CHR 0x0A] @ ''introduction to accounting for new students'')\<rparr>"

text \<open>A page on which the locator finds nothing.\<close>

definition missing_page :: page_view where
  "missing_page = header_page\<lparr>locator := missing_locator\<rparr>"


text \<open>
  The third read of the \<open>h3\<close> family raises after two titles, the query for \<open>h5\<close> raises,
  and the \<open>strong\<close> family repeats a title and brings a new one.
\<close>

definition raising_query :: "string \<Rightarrow> (element \<times> string result) list result" where
  "raising_query sel =
     (if sel = ''h3''
      then Inr [(Element 1, Inr '' Alpha ''), (Element 2, Inr ''Beta''), (Element 3, Inr ''Beta''),
                (Element 4, Inl PlaywrightError), (Element 5, Inr ''Lost'')]
      else if sel = ''h5'' then Inl PlaywrightError
      else if sel = ''strong'' then Inr [(Element 6, Inr ''Alpha''), (Element 7, Inr '' Gamma'')]
      else Inr [])"

text \<open>One heading, matched by two families.\<close>

definition single_query :: "string \<Rightarrow> (element \<times> string result) list result" where
  "single_query sel =
     (if sel = ''h4'' then Inr [(Element 1, Inr ''Business '')]
      else if sel = ''.card-header'' then Inr [(Element 2, Inr ''Business'')]
      else Inr [])"

section \<open>Properties\<close>

lemma lower_examples:
  "lower ''Home'' = ''home''"
  "lower ''Diploma in Business Management'' = ''diploma in business management''"
  by (simp_all add: lower_def lower_char_def ascii_uppercase_def ascii_lowercase_def)

lemma strip_examples:
  "strip ''ab'' = ''ab''"
  "strip ''Home'' = ''Home''"
  "strip ''home'' = ''home''"
  "strip ''Diploma in Business Management'' = ''Diploma in Business Management''"
  "strip ''diploma in business management'' = ''diploma in business management''"
  by (simp_all add: strip_def lstrip_def rstrip_def isspace_def)

lemma nav_no_match_diploma:
  "\<not> nav_match nav_elements ''diploma in business management''"
  by (simp add: nav_match_def nav_elements_def)

text \<open>
  C3. The noise predicate is true of the empty string, of \<open>ab\<close> and of \<open>Home\<close>, and false
  of \<open>Diploma in Business Management\<close>.
\<close>

theorem is_nav_element_examples:
  "is_nav_element '''' \<and> is_nav_element ''ab'' \<and> is_nav_element ''Home''
   \<and> \<not> is_nav_element ''Diploma in Business Management''"
proof -
  have e: "is_nav_element ''''"
    by (simp add: is_nav_element_def)
  have ab: "is_nav_element ''ab''"
    by (simp add: is_nav_element_def strip_examples)
  have home: "is_nav_element ''Home''"
    by (simp add: is_nav_element_def strip_examples lower_examples nav_match_def nav_elements_def)
  have dip: "\<not> is_nav_element ''Diploma in Business Management''"
    by (simp add: is_nav_element_def strip_examples lower_examples nav_no_match_diploma
        only_brackets_def only_number_def only_arrow_def isdigit_def)
  from e ab home dip show ?thesis by simp
qed

subsection \<open>Stripping\<close>

lemma rstrip_idem: "rstrip (rstrip s) = rstrip s"
  by (simp add: rstrip_def)

lemma rstrip_Cons: "\<not> isspace x \<Longrightarrow> rstrip (x # ys) = x # rstrip ys"
  by (simp add: rstrip_def dropWhile_append)

lemma lstrip_rstrip: "lstrip (rstrip (lstrip s)) = rstrip (lstrip s)"
proof (cases "lstrip s")
  case Nil
  show ?thesis unfolding Nil by (simp add: rstrip_def lstrip_def)
next
  case (Cons x ys)
  then have "\<not> isspace x"
    unfolding lstrip_def by (metis hd_dropWhile list.sel(1) list.distinct(1))
  then show ?thesis
    using Cons by (simp add: rstrip_Cons) (simp add: lstrip_def)
qed

lemma strip_strip: "strip (strip s) = strip s"
  by (simp add: strip_def lstrip_rstrip rstrip_idem)

subsection \<open>Dictionaries\<close>

lemma dict_set_keys: "fst ` set (dict_set d k v) = insert k (fst ` set d)"
proof (induction d)
  case Nil
  then show ?case by simp
next
  case (Cons p d)
  then show ?case by (cases p) (simp add: insert_commute)
qed

lemma dict_set_distinct: "distinct (map fst d) \<Longrightarrow> distinct (map fst (dict_set d k v))"
proof (induction d)
  case Nil
  then show ?case by simp
next
  case (Cons p d)
  then show ?case by (cases p) (auto simp: dict_set_keys)
qed

lemma dict_set_values:
  "list_all P (map snd d) \<Longrightarrow> P v \<Longrightarrow> list_all P (map snd (dict_set d k v))"
  by (induction d) auto

lemma dict_append_keys: "map fst (dict_append d k x) = map fst d"
  by (induction d) auto

lemma dict_append_values:
  "list_all P (map snd d) \<Longrightarrow> (\<And>v. P v \<Longrightarrow> P (v @ [x]))
     \<Longrightarrow> list_all P (map snd (dict_append d k x))"
  by (induction d) auto

lemma map_of_dict_set: "map_of (dict_set d k v) k' = (if k' = k then Some v else map_of d k')"
  by (induction d) auto

lemma map_of_dict_del: "map_of (dict_del d k) k' = (if k' = k then None else map_of d k')"
  by (induction d) (auto simp: dict_del_def)

subsection \<open>The cleaning loop\<close>

lemma clean_sub_nonempty: "clean_sub r t s = Some c \<Longrightarrow> c \<noteq> []"
  by (auto simp: clean_sub_def Let_def split: if_splits)

lemma clean_sub_stripped: "clean_sub r t s = Some c \<Longrightarrow> strip c = c"
  by (auto simp: clean_sub_def Let_def strip_strip split: if_splits)

lemma repeated_elements_pair: "repeated_elements [a, b] = []"
  by (auto simp: repeated_elements_def dict_get_def)

text \<open>
  C1 (as amended). When two harvested items both pass the tests of the cleaning loop and
  one of the cleaned texts contains the other, case-insensitively, exactly one item
  survives, and it is the one fed first, whichever is the longer.
\<close>

theorem dedup_keeps_first:
  assumes "clean_sub [] t a = Some a'" and "clean_sub [] t b = Some b'"
    and "one_contains_other a' b'"
  shows "clean_subs t [a, b] = [a']"
  using assms clean_sub_nonempty[OF assms(1)] clean_sub_nonempty[OF assms(2)]
  by (simp add: clean_subs_def repeated_elements_pair similar_exists_def)

theorem dedup_keeps_first_witness:
  "clean_sub [] ''Finance'' ''Advanced Diploma in Accounting'' = Some ''Advanced Diploma in Accounting''
   \<and> clean_sub [] ''Finance'' ''Diploma in Accounting'' = Some ''Diploma in Accounting''
   \<and> one_contains_other ''Advanced Diploma in Accounting'' ''Diploma in Accounting''
   \<and> clean_subs ''Finance'' [''Advanced Diploma in Accounting'', ''Diploma in Accounting'']
       = [''Advanced Diploma in Accounting'']"
proof -
  have a: "clean_sub [] ''Finance'' ''Advanced Diploma in Accounting''
             = Some ''Advanced Diploma in Accounting''"
    by code_simp
  have b: "clean_sub [] ''Finance'' ''Diploma in Accounting'' = Some ''Diploma in Accounting''"
    by code_simp
  have c: "one_contains_other ''Advanced Diploma in Accounting'' ''Diploma in Accounting''"
    by code_simp
  show ?thesis using dedup_keeps_first[OF a b c] a b c by simp
qed

theorem dedup_pair_counterexample:
  "clean_subs ''Business'' [''Project Management'', ''Project Management Professional'']
     = [''Project Management'']
   \<and> length ''Project Management'' < length ''Project Management Professional''"
  by code_simp

subsection \<open>The invariant of the program structure\<close>

lemma containment_free_snoc:
  "containment_free (xs @ [c]) =
     (containment_free xs \<and> list_all (\<lambda>x. \<not> one_contains_other x c) xs)"
  by (induction xs) auto

lemma not_similar_exists:
  "list_all (\<lambda>x. x \<noteq> []) acc \<Longrightarrow> c \<noteq> [] \<Longrightarrow> \<not> similar_exists acc c
     \<Longrightarrow> list_all (\<lambda>x. \<not> one_contains_other x c) acc"
  by (induction acc) (auto simp: similar_exists_def)

lemma clean_loop_invariant:
  "trimmed_items acc \<Longrightarrow> containment_free acc
     \<Longrightarrow> trimmed_items (clean_loop r t subs acc) \<and> containment_free (clean_loop r t subs acc)"
proof (induction subs arbitrary: acc)
  case Nil
  then show ?case by simp
next
  case (Cons sub rest)
  show ?case
  proof (cases "clean_sub r t sub")
    case None
    then show ?thesis using Cons by simp
  next
    case (Some c)
    show ?thesis
    proof (cases "c \<noteq> [] \<and> \<not> similar_exists acc c \<and> c \<notin> set acc")
      case True
      have ne: "list_all (\<lambda>x. x \<noteq> []) acc"
        using Cons.prems(1) by (simp add: trimmed_items_def list_all_iff)
      have t: "trimmed_items (acc @ [c])"
        using Cons.prems(1) True clean_sub_stripped[OF Some] by (simp add: trimmed_items_def)
      have f: "containment_free (acc @ [c])"
        using Cons.prems(2) True not_similar_exists[OF ne] by (simp add: containment_free_snoc)
      show ?thesis using Cons.IH[OF t f] Some True by simp
    next
      case False
      then show ?thesis using Cons Some by auto
    qed
  qed
qed

lemma clean_subs_invariant:
  "trimmed_items (clean_subs t subs) \<and> containment_free (clean_subs t subs)"
  unfolding clean_subs_def by (rule clean_loop_invariant) (simp_all add: trimmed_items_def)

lemma structure_loop_invariant:
  "unique_keys (fst st)
   \<Longrightarrow> list_all (\<lambda>its. trimmed_items its \<and> containment_free its) (map snd (fst st))
   \<Longrightarrow> unique_keys (fst (structure_loop h idx mps st))
       \<and> list_all (\<lambda>its. trimmed_items its \<and> containment_free its)
            (map snd (fst (structure_loop h idx mps st)))"
proof (induction mps arbitrary: idx st)
  case Nil
  then show ?case by simp
next
  case (Cons mp rest)
  obtain main_title el where mp: "mp = (main_title, el)" by (cases mp)
  obtain ps flat_programs where st: "st = (ps, flat_programs)" by (cases st)
  have pu: "unique_keys ps"
    and pv: "list_all (\<lambda>its. trimmed_items its \<and> containment_free its) (map snd ps)"
    using Cons.prems st by simp_all
  show ?case
  proof (cases "click_and_extract_subprograms (h idx) main_title")
    case (Inl e)
    then show ?thesis using Cons.IH[of "(ps, flat_programs)" "Suc idx"] pu pv mp st by simp
  next
    case (Inr sub_programs)
    show ?thesis
    proof (cases "sub_programs \<noteq> []")
      case True
      let ?cs = "clean_subs main_title sub_programs"
      let ?st = "(dict_set ps main_title ?cs,
                  flat_programs @ map (\<lambda>sub. main_title @ '' - '' @ sub) ?cs)"
      have u: "unique_keys (fst ?st)"
        using pu by (simp add: unique_keys_def dict_set_distinct)
      have v: "list_all (\<lambda>its. trimmed_items its \<and> containment_free its) (map snd (fst ?st))"
        using dict_set_values[OF pv] clean_subs_invariant by simp
      show ?thesis using Cons.IH[OF u v, of "Suc idx"] Inr True mp st by (simp add: Let_def)
    next
      case False
      let ?st = "(dict_set ps main_title [], flat_programs @ [main_title])"
      have u: "unique_keys (fst ?st)"
        using pu by (simp add: unique_keys_def dict_set_distinct)
      have v: "list_all (\<lambda>its. trimmed_items its \<and> containment_free its) (map snd (fst ?st))"
        using dict_set_values[OF pv, of "[]"] by (simp add: trimmed_items_def)
      show ?thesis using Cons.IH[OF u v, of "Suc idx"] Inr False mp st by simp
    qed
  qed
qed

lemma parse_lines_invariant:
  "unique_keys ps \<Longrightarrow> list_all trimmed_items (map snd ps)
   \<Longrightarrow> list_all (\<lambda>l. strip l \<noteq> []) lines
   \<Longrightarrow> unique_keys (parse_lines lines cur ps)
       \<and> list_all trimmed_items (map snd (parse_lines lines cur ps))"
proof (induction lines arbitrary: cur ps)
  case Nil
  then show ?case by simp
next
  case (Cons line rest)
  have r: "list_all (\<lambda>l. strip l \<noteq> []) rest" and l: "strip line \<noteq> []"
    using Cons.prems(3) by simp_all
  show ?case
  proof (cases "is_main_program line")
    case True
    have u: "unique_keys (dict_set ps (rstrip_colon (strip line)) [])"
      using Cons.prems(1) by (simp add: unique_keys_def dict_set_distinct)
    have v: "list_all trimmed_items (map snd (dict_set ps (rstrip_colon (strip line)) []))"
      by (rule dict_set_values[OF Cons.prems(2)]) (simp add: trimmed_items_def)
    show ?thesis using Cons.IH[OF u v r] True by (simp add: Let_def)
  next
    case False
    show ?thesis
    proof (cases cur)
      case None
      then show ?thesis using Cons.IH[OF Cons.prems(1,2) r] False by simp
    next
      case (Some c)
      have u: "unique_keys (dict_append ps c (strip line))"
        using Cons.prems(1) by (simp add: unique_keys_def dict_append_keys)
      have v: "list_all trimmed_items (map snd (dict_append ps c (strip line)))"
        by (rule dict_append_values[OF Cons.prems(2)])
          (simp add: trimmed_items_def strip_strip l)
      show ?thesis
        using Cons.IH[OF u v r] Cons.IH[OF Cons.prems(1,2) r] False Some by simp
    qed
  qed
qed

lemma text_lines_nonempty: "list_all (\<lambda>l. strip l \<noteq> []) (text_lines txt)"
  by (simp add: text_lines_def list_all_iff strip_strip)

lemma parse_text_invariant:
  "unique_keys (parse_text ct) \<and> list_all trimmed_items (map snd (parse_text ct))"
  using parse_lines_invariant[OF _ _ text_lines_nonempty, of "[]"]
  by (auto simp: parse_text_def unique_keys_def split: sum.splits)

lemma header_structure_invariant:
  "unique_keys (header_structure pg)
   \<and> list_all (\<lambda>its. trimmed_items its \<and> containment_free its)
        (map snd (header_structure pg))"
  unfolding header_structure_def
  by (rule structure_loop_invariant) (simp_all add: unique_keys_def)

lemma extract_from_content_cases:
  "fst (extract_from_content pg) =
     (if header_structure pg = [] then parse_text (content_text pg) else header_structure pg)"
  by (simp add: extract_from_content_def header_structure_def Let_def split: prod.splits)

lemma extract_programs_cases:
  "fst (extract_programs pg) =
     (case accordion_content (locator pg) of
        None \<Rightarrow> []
      | Some content \<Rightarrow>
          if header_structure pg = [] then parse_text (content_text pg)
          else header_structure pg)"
  by (simp add: extract_programs_def extract_from_content_cases split: option.splits)

text \<open>
  C2 (as amended). In every program structure that the extraction produces the category
  keys are unique and every item is non-empty and trimmed. When the structure comes from
  the headers and their harvests, every item list is also free of items that contain one
  another. (The structure parsed from the text of the container stores its lines as they
  are.)
\<close>

theorem structure_invariant:
  "unique_keys (fst (extract_programs pg))
   \<and> list_all trimmed_items (map snd (fst (extract_programs pg)))
   \<and> (header_structure pg \<noteq> []
        \<longrightarrow> list_all containment_free (map snd (fst (extract_programs pg))))"
proof -
  have h: "unique_keys (header_structure pg)"
    "list_all trimmed_items (map snd (header_structure pg))"
    "list_all containment_free (map snd (header_structure pg))"
    using header_structure_invariant[of pg] by (simp_all add: list_all_iff)
  have p: "unique_keys (parse_text (content_text pg))"
    "list_all trimmed_items (map snd (parse_text (content_text pg)))"
    using parse_text_invariant by simp_all
  show ?thesis
    using h p by (simp add: extract_programs_cases unique_keys_def split: option.splits)
qed

theorem structure_invariant_witness:
  "header_structure header_page \<noteq> []
   \<and> unique_keys (fst (extract_programs header_page))
   \<and> list_all trimmed_items (map snd (fst (extract_programs header_page)))
   \<and> list_all containment_free (map snd (fst (extract_programs header_page)))"
proof -
  have h: "header_structure header_page \<noteq> []"
    by code_simp
  show ?thesis using structure_invariant[of header_page] h by simp
qed

theorem structure_invariant_counterexample:
  "fst (extract_programs text_page) =
     [(''Business'', [''introduction to accounting for new students'',
                      ''introduction to accounting for new students''])]
   \<and> \<not> list_all containment_free (map snd (fst (extract_programs text_page)))"
  by code_simp

subsection \<open>The harvest and the title\<close>

lemma filter_loop_invariant:
  "list_all (\<lambda>x. \<not> similar_to_title t x) acc
     \<Longrightarrow> list_all (\<lambda>x. \<not> similar_to_title t x) (filter_loop c t its acc)"
  by (induction its arbitrary: acc) (auto simp: Let_def)

lemma after_click_step_invariant:
  "list_all (\<lambda>x. \<not> similar_to_title t x) (after_click_step v t)"
  by (auto simp: after_click_step_def Let_def filter_loop_invariant
      split: sum.splits list.splits)

lemma sibling_step_invariant:
  "list_all (\<lambda>x. \<not> similar_to_title t x) (sibling_step v t)"
  by (auto simp: sibling_step_def filter_loop_invariant split: sum.splits)

text \<open>
  C9 (as amended). When the step through the target container gives nothing, no item
  that the harvest returns has a word set that is a subset or a superset of the word set
  of the category title: on the three later steps a candidate whose first line, trimmed,
  has such a word set is dropped, in particular one whose words extend the words of the
  title. (The step through the target container applies no such test.)
\<close>

theorem harvest_drops_title_like_items:
  assumes "target_step v = []"
    and "click_and_extract_subprograms v main_title = Inr subprograms"
  shows "list_all (\<lambda>x. \<not> similar_to_title main_title x) subprograms"
proof (cases "after_click_step v main_title = []")
  case True
  then have "subprograms = sibling_step v main_title"
    using assms by (auto simp: click_and_extract_subprograms_def Let_def split: sum.splits)
  then show ?thesis by (simp add: sibling_step_invariant)
next
  case False
  then have "subprograms = after_click_step v main_title"
    using assms by (auto simp: click_and_extract_subprograms_def Let_def split: sum.splits)
  then show ?thesis by (simp add: after_click_step_invariant)
qed

theorem harvest_drops_title_like_items_witness:
  "target_step list_harvest = []
   \<and> click_and_extract_subprograms list_harvest ''Business''
       = Inr [''Diploma in Accounting'', ''Diploma in Accounting and Finance'']
   \<and> list_all (\<lambda>x. \<not> similar_to_title ''Business'' x)
        [''Diploma in Accounting'', ''Diploma in Accounting and Finance'']"
proof -
  have t: "target_step list_harvest = []"
    by code_simp
  have h: "click_and_extract_subprograms list_harvest ''Business''
             = Inr [''Diploma in Accounting'', ''Diploma in Accounting and Finance'']"
    by code_simp
  show ?thesis using harvest_drops_title_like_items[OF t h] t h by simp
qed

theorem harvest_keeps_title_like_item_counterexample:
  "click_and_extract_subprograms target_harvest ''Business'' = Inr [''Business Management'']
   \<and> words ''Business'' \<subseteq> words ''Business Management''"
  by code_simp

subsection \<open>The locator\<close>

lemma first_found_None:
  "first_found probe sels = None \<longleftrightarrow> (\<forall>s \<in> set sels. \<forall>el. probe s \<noteq> Inr (Some el))"
  by (induction sels) (auto split: sum.splits option.splits)

text \<open>
  C4 (as amended). The locator raises to its caller exactly when its first call, the wait
  for the idle load state, raises; every later error is caught. When no trigger selector
  yields an element it returns \<open>None\<close> at once, without trying the later stages; otherwise
  it returns \<open>None\<close> only when the stage that resolves the content and the last-resort
  probes (up to the first one that raises) gave nothing. The caller turns a raised error
  into \<open>None\<close>.
\<close>

theorem locator_raises_only_on_load_state:
  "(click_and_expand_accordion v label = Inl e \<longleftrightarrow> load_state v = Inl e)
   \<and> (load_state v = Inr () \<and> (\<forall>s \<in> set (selectors label). \<forall>el. wait_trigger v s \<noteq> Inr (Some el))
        \<longrightarrow> click_and_expand_accordion v label = Inr None)
   \<and> (click_and_expand_accordion v label = Inr None
        \<longrightarrow> (\<forall>s \<in> set (selectors label). \<forall>el. wait_trigger v s \<noteq> Inr (Some el))
            \<or> (\<exists>el. first_found (wait_trigger v) (selectors label) = Some el
                     \<and> resolve_content v el = None \<and> last_resort v = None))
   \<and> (load_state v = Inl e \<longrightarrow> accordion_content v = None)"
proof -
  have a: "click_and_expand_accordion v label = Inl e \<longleftrightarrow> load_state v = Inl e"
    by (auto simp: click_and_expand_accordion_def split: sum.splits option.splits)
  have b: "load_state v = Inr ()
           \<and> (\<forall>s \<in> set (selectors label). \<forall>el. wait_trigger v s \<noteq> Inr (Some el))
           \<longrightarrow> click_and_expand_accordion v label = Inr None"
    using first_found_None[of "wait_trigger v" "selectors label"]
    by (auto simp: click_and_expand_accordion_def)
  have c: "click_and_expand_accordion v label = Inr None
           \<longrightarrow> (\<forall>s \<in> set (selectors label). \<forall>el. wait_trigger v s \<noteq> Inr (Some el))
               \<or> (\<exists>el. first_found (wait_trigger v) (selectors label) = Some el
                        \<and> resolve_content v el = None \<and> last_resort v = None)"
    using first_found_None[of "wait_trigger v" "selectors label"]
    by (auto simp: click_and_expand_accordion_def split: sum.splits option.splits)
  have d: "load_state v = Inl e \<longrightarrow> accordion_content v = None"
    by (simp add: accordion_content_def click_and_expand_accordion_def)
  from a b c d show ?thesis by blast
qed

theorem locator_raises_only_on_load_state_witness:
  "load_state missing_locator = Inr ()
   \<and> list_all (\<lambda>s. wait_trigger missing_locator s = Inl PlaywrightError)
        (selectors ''Programs Offered'')
   \<and> click_and_expand_accordion missing_locator ''Programs Offered'' = Inr None
   \<and> load_state never_idle_locator = Inl PlaywrightError
   \<and> accordion_content never_idle_locator = None"
proof -
  have l: "load_state missing_locator = Inr ()"
    by (simp add: missing_locator_def found_locator_def)
  have w: "\<And>s. wait_trigger missing_locator s = Inl PlaywrightError"
    by (simp add: missing_locator_def found_locator_def)
  have n: "load_state never_idle_locator = Inl PlaywrightError"
    by (simp add: never_idle_locator_def found_locator_def)
  show ?thesis
    using locator_raises_only_on_load_state[of missing_locator "''Programs Offered''" PlaywrightError]
      locator_raises_only_on_load_state[of never_idle_locator "''Programs Offered''" PlaywrightError]
      l w n
    by (simp add: list_all_iff)
qed

theorem locator_counterexample:
  "click_and_expand_accordion never_idle_locator ''Programs Offered'' = Inl PlaywrightError
   \<and> click_and_expand_accordion no_trigger_locator ''Programs Offered'' = Inr None
   \<and> last_resort no_trigger_locator = Some (Element 9)"
  by code_simp

subsection \<open>The scan of the selector families\<close>

lemma scan_family_distinct:
  "distinct (map fst mp) \<Longrightarrow> distinct (map fst (fst (scan_family els mp)))"
proof (induction els arbitrary: mp)
  case Nil
  then show ?case by simp
next
  case (Cons x rest)
  obtain el r where x: "x = (el, r)" by (cases x)
  show ?case
  proof (cases r)
    case (Inl e)
    then show ?thesis using x Cons.prems by simp
  next
    case (Inr tx)
    show ?thesis
    proof (cases "tx \<noteq> [] \<and> length (strip tx) > 1 \<and> \<not> list_ex (\<lambda>p. fst p = strip tx) mp")
      case True
      have "strip tx \<notin> fst ` set mp"
        using True by (auto simp: list_ex_iff)
      then have d: "distinct (map fst (mp @ [(strip tx, el)]))"
        using Cons.prems by simp
      show ?thesis using Cons.IH[OF d] True x Inr by (simp add: Let_def)
    next
      case False
      then show ?thesis using Cons.IH[OF Cons.prems] x Inr by (auto simp: Let_def)
    qed
  qed
qed

lemma scan_selectors_distinct:
  "distinct (map fst mp) \<Longrightarrow> distinct (map fst (scan_selectors q sels mp))"
proof (induction sels arbitrary: mp)
  case Nil
  then show ?case by simp
next
  case (Cons sel rest)
  show ?case
  proof (cases "q sel")
    case (Inl e)
    then show ?thesis using Cons by simp
  next
    case (Inr elements)
    obtain mp' ok where f: "scan_family elements mp = (mp', ok)"
      by (cases "scan_family elements mp")
    have d: "distinct (map fst mp')"
      using scan_family_distinct[OF Cons.prems, of elements] f by simp
    show ?thesis
      using Cons.IH[OF d] Cons.IH[OF Cons.prems] Inr f d by (cases ok) auto
  qed
qed

lemma first_occurrences_titles: "fst ` set (first_occurrences cs) = fst ` set cs"
  by (induction cs rule: first_occurrences.induct) auto

lemma first_occurrences_snoc:
  "first_occurrences (cs @ [c]) =
     (if fst c \<in> fst ` set cs then first_occurrences cs else first_occurrences cs @ [c])"
proof (induction cs rule: first_occurrences.induct)
  case 1
  then show ?case by simp
next
  case (2 p ps)
  show ?case
  proof (cases "fst c = fst p")
    case True
    then show ?thesis by simp
  next
    case False
    have "fst c \<in> fst ` set (filter (\<lambda>r. fst r \<noteq> fst p) ps) \<longleftrightarrow> fst c \<in> fst ` set ps"
      using False by auto
    then show ?thesis using 2 False by auto
  qed
qed

lemma first_occurrences_distinct: "distinct (map fst (first_occurrences cs))"
proof (induction cs rule: first_occurrences.induct)
  case 1
  then show ?case by simp
next
  case (2 p ps)
  have "fst p \<notin> fst ` set (first_occurrences (filter (\<lambda>r. fst r \<noteq> fst p) ps))"
    unfolding first_occurrences_titles by auto
  then show ?case using 2 by simp
qed

lemma candidates_append: "candidates (xs @ ys) = candidates xs @ candidates ys"
  by (simp add: candidates_def)

lemma scan_family_first:
  "scan_family els (first_occurrences cs)
     = (first_occurrences (cs @ candidates (reads els)), read_without_error els)"
proof (induction els arbitrary: cs)
  case Nil
  then show ?case by (simp add: candidates_def read_without_error_def)
next
  case (Cons x rest)
  obtain el r where x: "x = (el, r)" by (cases x)
  show ?case
  proof (cases r)
    case (Inl e)
    then show ?thesis using x by (simp add: candidates_def read_without_error_def)
  next
    case (Inr tx)
    have ok: "read_without_error (x # rest) = read_without_error rest"
      using x Inr by (simp add: read_without_error_def)
    show ?thesis
    proof (cases "tx \<noteq> [] \<and> length (strip tx) > 1")
      case True
      let ?c = "(strip tx, el)"
      have cs: "candidates (reads (x # rest)) = ?c # candidates (reads rest)"
        using x Inr True by (simp add: candidates_def)
      have "list_ex (\<lambda>p. fst p = strip tx) xs \<longleftrightarrow> strip tx \<in> fst ` set xs"
        for xs :: "main_program list"
        by (force simp: list_ex_iff image_iff)
      then have new: "list_ex (\<lambda>p. fst p = strip tx) (first_occurrences cs)
                        \<longleftrightarrow> strip tx \<in> fst ` set cs"
        by (simp add: first_occurrences_titles)
      have "scan_family (x # rest) (first_occurrences cs)
              = scan_family rest (first_occurrences (cs @ [?c]))"
        using x Inr True new by (simp add: Let_def first_occurrences_snoc)
      also have "\<dots> = (first_occurrences ((cs @ [?c]) @ candidates (reads rest)),
                       read_without_error rest)"
        by (rule Cons.IH)
      finally show ?thesis using cs ok by simp
    next
      case False
      have cs: "candidates (reads (x # rest)) = candidates (reads rest)"
        using x Inr False by (auto simp: candidates_def)
      have "scan_family (x # rest) (first_occurrences cs) = scan_family rest (first_occurrences cs)"
        using x Inr False by auto
      then show ?thesis using Cons.IH[of cs] cs ok by simp
    qed
  qed
qed

lemma held_snoc:
  "held q (pre @ [sel])
     = first_occurrences (candidates (concat (map (family_reads q) pre))
                          @ candidates (family_reads q sel))"
  by (simp add: held_def candidates_append)

lemma stops_at_snoc:
  "stops_at q (pre @ sel # post) (length pre) =
     (case q sel of
        Inl e \<Rightarrow> False
      | Inr els \<Rightarrow> els \<noteq> [] \<and> read_without_error els \<and> length (held q (pre @ [sel])) > 1)"
  by (simp add: stops_at_def split: sum.splits)

lemma held_snoc_empty: "family_reads q sel = [] \<Longrightarrow> held q (pre @ [sel]) = held q pre"
  by (simp add: held_def)

lemma scan_selectors_step:
  "scan_selectors q (sel # rest) (held q pre) =
     (if stops_at q (pre @ sel # rest) (length pre) then held q (pre @ [sel])
      else scan_selectors q rest (held q (pre @ [sel])))"
proof (cases "q sel")
  case (Inl e)
  then have "held q (pre @ [sel]) = held q pre"
    by (intro held_snoc_empty) (simp add: family_reads_def)
  then show ?thesis
    using Inl by (simp add: stops_at_snoc)
next
  case (Inr els)
  show ?thesis
  proof (cases "els = []")
    case True
    then have "held q (pre @ [sel]) = held q pre"
      using Inr by (intro held_snoc_empty) (simp add: family_reads_def)
    then show ?thesis
      using Inr True by (simp add: stops_at_snoc)
  next
    case False
    have f: "scan_family els (held q pre) = (held q (pre @ [sel]), read_without_error els)"
      unfolding held_def[of q pre] held_snoc
      using Inr by (simp add: scan_family_first family_reads_def)
    show ?thesis
      using Inr False f by (cases "read_without_error els") (auto simp: stops_at_snoc)
  qed
qed

lemma scan_selectors_no_stop:
  "(\<forall>i < length rest. \<not> stops_at q (pre @ rest) (length pre + i))
     \<Longrightarrow> scan_selectors q rest (held q pre) = held q (pre @ rest)"
proof (induction rest arbitrary: pre)
  case Nil
  then show ?case by simp
next
  case (Cons sel rest)
  have z: "\<not> stops_at q (pre @ sel # rest) (length pre)"
    using Cons.prems[rule_format, of 0] by simp
  have r: "\<forall>i < length rest. \<not> stops_at q ((pre @ [sel]) @ rest) (length (pre @ [sel]) + i)"
  proof (intro allI impI)
    fix i
    assume "i < length rest"
    then have "\<not> stops_at q (pre @ sel # rest) (length pre + Suc i)"
      using Cons.prems[rule_format, of "Suc i"] by simp
    then show "\<not> stops_at q ((pre @ [sel]) @ rest) (length (pre @ [sel]) + i)"
      by simp
  qed
  have "scan_selectors q (sel # rest) (held q pre) = scan_selectors q rest (held q (pre @ [sel]))"
    using z by (simp only: scan_selectors_step if_False)
  also have "\<dots> = held q ((pre @ [sel]) @ rest)"
    by (rule Cons.IH[OF r])
  finally show ?case by simp
qed

lemma scan_selectors_first_stop:
  "i < length rest \<Longrightarrow> stops_at q (pre @ rest) (length pre + i)
     \<Longrightarrow> (\<forall>j < i. \<not> stops_at q (pre @ rest) (length pre + j))
     \<Longrightarrow> scan_selectors q rest (held q pre) = held q (pre @ take (Suc i) rest)"
proof (induction rest arbitrary: pre i)
  case Nil
  then show ?case by simp
next
  case (Cons sel rest)
  show ?case
  proof (cases i)
    case 0
    have s: "stops_at q (pre @ sel # rest) (length pre)"
      using Cons.prems(2) 0 by simp
    have "scan_selectors q (sel # rest) (held q pre) = held q (pre @ [sel])"
      using s by (simp only: scan_selectors_step if_True)
    then show ?thesis using 0 by simp
  next
    case (Suc k)
    have z: "\<not> stops_at q (pre @ sel # rest) (length pre)"
      using Cons.prems(3)[rule_format, of 0] Suc by simp
    have k: "k < length rest"
      using Cons.prems(1) Suc by simp
    have s: "stops_at q ((pre @ [sel]) @ rest) (length (pre @ [sel]) + k)"
      using Cons.prems(2) Suc by simp
    have r: "\<forall>j < k. \<not> stops_at q ((pre @ [sel]) @ rest) (length (pre @ [sel]) + j)"
    proof (intro allI impI)
      fix j
      assume "j < k"
      then have "\<not> stops_at q (pre @ sel # rest) (length pre + Suc j)"
        using Cons.prems(3)[rule_format, of "Suc j"] Suc by simp
      then show "\<not> stops_at q ((pre @ [sel]) @ rest) (length (pre @ [sel]) + j)"
        by simp
    qed
    have "scan_selectors q (sel # rest) (held q pre) = scan_selectors q rest (held q (pre @ [sel]))"
      using z by (simp only: scan_selectors_step if_False)
    also have "\<dots> = held q ((pre @ [sel]) @ take (Suc k) rest)"
      by (rule Cons.IH[OF k s r])
    finally show ?thesis using Suc by simp
  qed
qed

lemma held_empty: "held q [] = []"
  by (simp add: held_def candidates_def)

text \<open>
  C5 (as amended). The texts of the families are read in the order of the selectors, each
  family up to its first read that raises, and the scan keeps, of the texts longer than
  one character after trimming, the first occurrence of each distinct trimmed title, with
  its element: the titles it returns are distinct. The scan stops after the first family
  that matched some element, was read without error, and left more than one title held in
  all, the titles of the earlier families included; when there is no such family it reads
  every family.
\<close>

theorem scan_stops_on_titles_held:
  "distinct (map fst (scan_selectors q sels []))
   \<and> ((\<forall>i < length sels. \<not> stops_at q sels i) \<longrightarrow> scan_selectors q sels [] = held q sels)
   \<and> (i < length sels \<and> stops_at q sels i \<and> (\<forall>j < i. \<not> stops_at q sels j)
        \<longrightarrow> scan_selectors q sels [] = held q (take (Suc i) sels))"
proof -
  have a: "distinct (map fst (scan_selectors q sels []))"
    by (rule scan_selectors_distinct) simp
  have b: "scan_selectors q sels [] = held q sels" if "\<forall>i < length sels. \<not> stops_at q sels i"
    using scan_selectors_no_stop[of sels q "[]"] that by (simp add: held_empty)
  have c: "scan_selectors q sels [] = held q (take (Suc i) sels)"
    if "i < length sels" "stops_at q sels i" "\<forall>j < i. \<not> stops_at q sels j"
    using scan_selectors_first_stop[of i sels q "[]"] that by (simp add: held_empty)
  from a b c show ?thesis by blast
qed

theorem scan_stops_on_titles_held_witness:
  "\<not> stops_at raising_query main_program_selectors 0
   \<and> \<not> stops_at raising_query main_program_selectors 1
   \<and> \<not> stops_at raising_query main_program_selectors 2
   \<and> stops_at raising_query main_program_selectors 3
   \<and> scan_selectors raising_query main_program_selectors []
       = [(''Alpha'', Element 1), (''Beta'', Element 2), (''Gamma'', Element 7)]
   \<and> list_all (\<lambda>i. \<not> stops_at single_query main_program_selectors i)
        [0..<length main_program_selectors]
   \<and> scan_selectors single_query main_program_selectors [] = [(''Business'', Element 1)]"
proof -
  have n: "\<not> stops_at raising_query main_program_selectors 0"
    "\<not> stops_at raising_query main_program_selectors 1"
    "\<not> stops_at raising_query main_program_selectors 2"
    by code_simp+
  have s: "stops_at raising_query main_program_selectors 3"
    by code_simp
  have l: "3 < length main_program_selectors"
    by code_simp
  have h: "held raising_query (take (Suc 3) main_program_selectors)
             = [(''Alpha'', Element 1), (''Beta'', Element 2), (''Gamma'', Element 7)]"
    by code_simp
  have before: "\<forall>j < 3. \<not> stops_at raising_query main_program_selectors j"
  proof (intro allI impI)
    fix j :: nat
    assume "j < 3"
    then have "j = 0 \<or> j = 1 \<or> j = 2" by arith
    then show "\<not> stops_at raising_query main_program_selectors j" using n by auto
  qed
  have never: "list_all (\<lambda>i. \<not> stops_at single_query main_program_selectors i)
                 [0..<length main_program_selectors]"
    by code_simp
  then have never': "\<forall>i < length main_program_selectors. \<not> stops_at single_query main_program_selectors i"
    by (simp add: list_all_iff)
  have g: "held single_query main_program_selectors = [(''Business'', Element 1)]"
    by code_simp
  show ?thesis
    using scan_stops_on_titles_held[of raising_query main_program_selectors 3]
      scan_stops_on_titles_held[of single_query main_program_selectors 0]
      n s l h before never never' g
    by simp
qed

theorem scan_counterexample:
  "scan_selectors heading_query main_program_selectors []
     = [(''Alpha'', Element 1), (''Beta'', Element 2)]
   \<and> scan_selectors_as_specified heading_query main_program_selectors []
     = [(''Alpha'', Element 1), (''Beta'', Element 2), (''Gamma'', Element 3),
        (''Delta'', Element 4)]"
  by code_simp

subsection \<open>The programs field\<close>

lemma format_loop_map: "format_loop ps formatted = formatted @ map segment ps"
  by (induction ps arbitrary: formatted) (auto simp: segment_def filtered_subs_def)

text \<open>
  C6. When the program structure is not empty, the programs field is the segments of its
  categories, in order, joined with a semicolon and a space: the segment of a category
  whose filtered item list is non-empty is the title, a space, and in round brackets the
  items joined in order with a comma and a space; the segment of a category with no
  items is the bare title.
\<close>

theorem programs_field_format:
  assumes "ps \<noteq> []"
  shows "map_of (store_programs d ps flat) ''programs'' = Some (join ''; '' (map segment ps))
         \<and> (\<forall>c \<in> set ps.
               segment c = (if filtered_subs (snd c) \<noteq> []
                            then fst c @ '' ('' @ join '', '' (filtered_subs (snd c)) @ '')''
                            else fst c)
               \<and> (snd c = [] \<longrightarrow> segment c = fst c))"
proof -
  have f: "format_loop ps [] = map segment ps"
    by (simp add: format_loop_map)
  have n: "format_loop ps [] \<noteq> []"
    using assms f by simp
  have "map_of (store_programs d ps flat) ''programs''
          = Some (join ''; '' (format_loop ps []))"
    using assms n by (simp add: store_programs_def Let_def map_of_dict_set map_of_dict_del)
  then have field: "map_of (store_programs d ps flat) ''programs''
                      = Some (join ''; '' (map segment ps))"
    using f by simp
  have bare: "\<forall>c \<in> set ps. snd c = [] \<longrightarrow> segment c = fst c"
    by (simp add: segment_def filtered_subs_def)
  from field bare show ?thesis
    by (simp add: segment_def)
qed

theorem programs_field_format_witness:
  "[(''Business'', [''Item1'', ''Item2'']), (''Technology'', [''Item3'', ''Item4''])] \<noteq> []
   \<and> map_of (store_programs (detailed_data_of ''n'' ''a'' ''l'' ''w'' ''e'' ''p'' ''s'')
               [(''Business'', [''Item1'', ''Item2'']), (''Technology'', [''Item3'', ''Item4''])]
               [])
        ''programs''
       = Some ''Business (Item1, Item2); Technology (Item3, Item4)''
   \<and> segment (''Standalone'', []) = ''Standalone''"
proof -
  let ?ps = "[(''Business'', [''Item1'', ''Item2'']), (''Technology'', [''Item3'', ''Item4''])]"
  have j: "join ''; '' (map segment ?ps) = ''Business (Item1, Item2); Technology (Item3, Item4)''"
    by code_simp
  have s: "segment (''Standalone'', []) = ''Standalone''"
    by code_simp
  show ?thesis
    using programs_field_format[of ?ps "detailed_data_of ''n'' ''a'' ''l'' ''w'' ''e'' ''p'' ''s''" "[]"]
      j s
    by simp
qed

subsection \<open>No accordion\<close>

lemma provider_record_missing:
  "accordion_content (locator pg) = None \<Longrightarrow>
     provider_record (detailed_data_of name area location website email phone address) pg
       = detailed_data_of name area location website email phone address @ [(''programs'', ''N/A'')]"
  by (simp add: provider_record_def extract_programs_def store_programs_def Let_def
      detailed_data_of_def dict_get_def dict_del_def)

lemma cleaned_not_available: "cleaned_programs_of ''N/A'' = ''N/A''"
  by code_simp

lemma save_data_missing:
  "save_data_of (detailed_data_of name area location website email phone address
                 @ [(''programs'', ''N/A'')])
     = detailed_data_of name area location website email phone address @ [(''programs'', ''N/A'')]"
  by (simp add: save_data_of_def Let_def detailed_data_of_def dict_del_def cleaned_not_available)

text \<open>
  C7. When the locator returns \<open>None\<close> for \<open>Programs Offered\<close>, the record of the provider
  is the record built so far with the programs field \<open>N/A\<close> added, and the record saved
  from it has the same programs field. (The record is a plain value of the model: no call
  that can raise is made on this path.)
\<close>

theorem programs_not_available:
  assumes "click_and_expand_accordion (locator pg) ''Programs Offered'' = Inr None"
  shows "map_of (provider_record (detailed_data_of name area location website email phone address) pg)
           ''programs'' = Some ''N/A''
         \<and> map_of (save_data_of
                     (provider_record
                        (detailed_data_of name area location website email phone address) pg))
             ''programs'' = Some ''N/A''"
proof -
  have n: "accordion_content (locator pg) = None"
    using assms by (simp add: accordion_content_def)
  show ?thesis
    unfolding provider_record_missing[OF n] save_data_missing
    by (simp add: detailed_data_of_def)
qed

theorem programs_not_available_witness:
  "click_and_expand_accordion (locator missing_page) ''Programs Offered'' = Inr None
   \<and> map_of (provider_record
               (detailed_data_of ''Institute'' ''Dubai'' ''Dubai'' ''N/A'' ''N/A'' ''N/A'' ''N/A'')
               missing_page)
        ''programs'' = Some ''N/A''"
proof -
  have l: "click_and_expand_accordion (locator missing_page) ''Programs Offered'' = Inr None"
    by code_simp
  show ?thesis
    using programs_not_available[OF l, of "''Institute''" "''Dubai''" "''Dubai''" "''N/A''"
        "''N/A''" "''N/A''" "''N/A''"] l
    by simp
qed

subsection \<open>The save\<close>

lemma cleaned_loop_set:
  "set (cleaned_loop pieces acc) =
     set acc \<union> {strip p | p. p \<in> set pieces \<and> strip p \<noteq> [] \<and> \<not> has_nav_word (strip p)}"
  by (induction pieces arbitrary: acc) (auto simp: Let_def)

lemma cleaned_loop_distinct: "distinct acc \<Longrightarrow> distinct (cleaned_loop pieces acc)"
  by (induction pieces arbitrary: acc) (auto simp: Let_def)

lemma save_data_programs:
  "map_of d ''programs'' = Some programs \<Longrightarrow>
     map_of (save_data_of d) ''programs''
       = Some (if programs = [] then [] else cleaned_programs_of programs)"
  by (simp add: save_data_of_def Let_def map_of_dict_del map_of_dict_set)

text \<open>
  C10 (as amended). Before the save, a programs field that is not empty is cut at every
  semicolon and each piece is trimmed. A piece that contains a word of the navigation
  list of the save, as a substring of any length and whatever the case, is dropped, and
  so is an empty piece and a piece equal to one already kept. The saved field is the
  kept pieces joined with a semicolon and a space, or \<open>N/A\<close> when none is kept. An empty
  programs field is saved as it is.
\<close>

theorem save_cleans_programs:
  assumes "map_of d ''programs'' = Some programs"
  shows "(programs = [] \<longrightarrow> map_of (save_data_of d) ''programs'' = Some [])
         \<and> (programs \<noteq> [] \<longrightarrow>
              map_of (save_data_of d) ''programs''
                = Some (if cleaned_loop (split_on (CHR '';'') programs) [] = [] then ''N/A''
                        else join ''; '' (cleaned_loop (split_on (CHR '';'') programs) []))
              \<and> distinct (cleaned_loop (split_on (CHR '';'') programs) [])
              \<and> set (cleaned_loop (split_on (CHR '';'') programs) [])
                  = {strip p | p. p \<in> set (split_on (CHR '';'') programs) \<and> strip p \<noteq> []
                                  \<and> \<not> has_nav_word (strip p)})"
  using save_data_programs[OF assms] cleaned_loop_set[of "split_on (CHR '';'') programs" "[]"]
    cleaned_loop_distinct[of "[]" "split_on (CHR '';'') programs"]
  by (simp add: cleaned_programs_of_def Let_def)

theorem save_cleans_programs_witness:
  "map_of [(''name'', ''Institute''), (''programs'', ''Business (Law); Home; Business (Law)'')]
     ''programs'' = Some ''Business (Law); Home; Business (Law)''
   \<and> ''Business (Law); Home; Business (Law)'' \<noteq> []
   \<and> map_of (save_data_of
               [(''name'', ''Institute''), (''programs'', ''Business (Law); Home; Business (Law)'')])
        ''programs'' = Some ''Business (Law)''"
proof -
  let ?d = "[(''name'', ''Institute''), (''programs'', ''Business (Law); Home; Business (Law)'')]"
  have m: "map_of ?d ''programs'' = Some ''Business (Law); Home; Business (Law)''"
    by simp
  have c: "cleaned_loop (split_on (CHR '';'') ''Business (Law); Home; Business (Law)'') []
             = [''Business (Law)'']"
    by code_simp
  show ?thesis
    using save_cleans_programs[OF m] m c by simp
qed

theorem save_counterexample:
  "\<not> contains ''Arts;home'' ''; ''
   \<and> has_nav_word ''Arts;home''
   \<and> map_of (save_data_of [(''name'', ''Institute''), (''programs'', ''Arts;home'')]) ''programs''
       = Some ''Arts''
   \<and> \<not> contains ''Arts;Crafts'' ''; ''
   \<and> \<not> has_nav_word ''Arts;Crafts''
   \<and> map_of (save_data_of [(''name'', ''Institute''), (''programs'', ''Arts;Crafts'')]) ''programs''
       = Some ''Arts; Crafts''"
  by code_simp

end
